theory Spec2Isabelle
  imports Complex_Main
begin

section \<open>JavaScript values as the data-access layer sees them\<close>

text \<open>
  The notes service (\<^verbatim>\<open>services/api.js\<close>) handles plain JavaScript data: what
  \<^verbatim>\<open>JSON.parse\<close> returns, what callers pass in, and \<^verbatim>\<open>undefined\<close> for a
  property that is not there. Numbers are the finite doubles, read as rationals (\<^verbatim>\<open>-0\<close>
  and \<^verbatim>\<open>0\<close> are one value: the code cannot tell them apart, and JSON does not).
  An object is the list of its own properties in order.
\<close>

datatype jsval =
    JUndefined
  | JNull
  | JBool bool
  | JNum rat
  | JStr string
  | JArr "jsval list"
  | JObj "(string \<times> jsval) list"

datatype error =
    TypeError        \<comment> \<open>property read of null/undefined, or calling a method that is not there\<close>
  | RangeError       \<comment> \<open>\<^verbatim>\<open>toISOString\<close> of an invalid date\<close>
  | NoteNotFound     \<comment> \<open>\<^verbatim>\<open>new Error('Note not found')\<close>\<close>

text \<open>Truthiness, as used by \<^verbatim>\<open>||\<close>, \<^verbatim>\<open>!\<close> and \<^verbatim>\<open>?:\<close>.\<close>

fun truthy :: "jsval \<Rightarrow> bool" where
  "truthy JUndefined = False"
| "truthy JNull = False"
| "truthy (JBool b) = b"
| "truthy (JNum r) = (r \<noteq> 0)"
| "truthy (JStr s) = (s \<noteq> [])"
| "truthy (JArr xs) = True"
| "truthy (JObj kvs) = True"

definition js_or :: "jsval \<Rightarrow> jsval \<Rightarrow> jsval" where
  "js_or a b = (if truthy a then a else b)"

text \<open>
  \<^verbatim>\<open>a === b\<close>. Primitives compare by value. Arrays and objects compare by reference,
  and every array or object read from storage is a fresh one made by \<^verbatim>\<open>JSON.parse\<close>,
  so it is never identical to anything a caller holds.
\<close>

fun is_primitive :: "jsval \<Rightarrow> bool" where
  "is_primitive (JArr xs) = False"
| "is_primitive (JObj kvs) = False"
| "is_primitive v = True"

definition strict_eq :: "jsval \<Rightarrow> jsval \<Rightarrow> bool" where
  "strict_eq a b = (is_primitive a \<and> a = b)"

text \<open>
  Reading a property. On a property list a later entry overrides an earlier one with the
  same key, as in an object literal and in \<^verbatim>\<open>JSON.parse\<close>. \<^verbatim>\<open>js_get\<close> reads an
  own property of an object. The keys the code reads (\<^verbatim>\<open>id\<close>, \<^verbatim>\<open>title\<close>,
  \<^verbatim>\<open>content\<close>, \<^verbatim>\<open>updatedAt\<close>) exist on no prototype, so for them this is the
  value of \<^verbatim>\<open>v.key\<close>, and on a number, boolean, string or array the read gives
  \<^verbatim>\<open>undefined\<close>; on \<^verbatim>\<open>null\<close> and \<^verbatim>\<open>undefined\<close> it throws.
\<close>

definition lookup :: "(string \<times> jsval) list \<Rightarrow> string \<Rightarrow> jsval" where
  "lookup kvs k = (case map_of (rev kvs) k of None \<Rightarrow> JUndefined | Some v \<Rightarrow> v)"

fun js_get :: "jsval \<Rightarrow> string \<Rightarrow> jsval" where
  "js_get (JObj kvs) k = lookup kvs k"
| "js_get v k = JUndefined"

fun get_prop :: "jsval \<Rightarrow> string \<Rightarrow> error + jsval" where
  "get_prop JUndefined k = Inl TypeError"
| "get_prop JNull k = Inl TypeError"
| "get_prop v k = Inr (js_get v k)"

text \<open>
  Object spread \<^verbatim>\<open>{ ...a, ...b, k: v }\<close>: the own enumerable properties of each source
  are defined on the new object in order; defining an existing key replaces its value in
  place, a new key goes to the end. A string spreads into its characters and an array into
  its elements, keyed by index; \<^verbatim>\<open>null\<close>, \<^verbatim>\<open>undefined\<close>, numbers and booleans
  contribute nothing. (JavaScript lists keys that look like array indices before the
  others; the lists here keep the order of definition. Nothing below depends on the order
  of the keys, only on what a property read returns.)
\<close>

fun digit_char :: "nat \<Rightarrow> char" where
  "digit_char n = char_of (48 + n)"

fun decimal :: "nat \<Rightarrow> string" where
  "decimal n = (if n < 10 then [digit_char n] else decimal (n div 10) @ [digit_char (n mod 10)])"

declare decimal.simps [simp del]

definition index_keys :: "nat \<Rightarrow> string list" where
  "index_keys n = map decimal [0..<n]"

fun own_entries :: "jsval \<Rightarrow> (string \<times> jsval) list" where
  "own_entries (JObj kvs) = kvs"
| "own_entries (JArr xs) = zip (index_keys (length xs)) xs"
| "own_entries (JStr s) = zip (index_keys (length s)) (map (\<lambda>c. JStr [c]) s)"
| "own_entries v = []"

definition define_prop :: "string \<times> jsval \<Rightarrow> (string \<times> jsval) list \<Rightarrow> (string \<times> jsval) list" where
  "define_prop kv kvs =
     (if fst kv \<in> fst ` set kvs
      then map (\<lambda>e. if fst e = fst kv then (fst e, snd kv) else e) kvs
      else kvs @ [kv])"

definition spread :: "(string \<times> jsval) list \<Rightarrow> (string \<times> jsval) list \<Rightarrow> (string \<times> jsval) list" where
  "spread entries acc = fold define_prop entries acc"

section \<open>The local fallback store\<close>

text \<open>
  \<^verbatim>\<open>JSON.parse(JSON.stringify(v))\<close>: a property whose value is \<^verbatim>\<open>undefined\<close> is
  left out, an \<^verbatim>\<open>undefined\<close> array element becomes \<^verbatim>\<open>null\<close>, everything else
  comes back as it was. (At \<^verbatim>\<open>JUndefined\<close> itself \<^verbatim>\<open>json_roundtrip\<close> returns
  \<^verbatim>\<open>JUndefined\<close>, which the array and object cases then treat as said.)
\<close>

primrec json_roundtrip :: "jsval \<Rightarrow> jsval" where
  "json_roundtrip JUndefined = JUndefined"
| "json_roundtrip JNull = JNull"
| "json_roundtrip (JBool b) = JBool b"
| "json_roundtrip (JNum r) = JNum r"
| "json_roundtrip (JStr s) = JStr s"
| "json_roundtrip (JArr xs) =
     JArr (map (\<lambda>v. if v = JUndefined then JNull else v) (map json_roundtrip xs))"
| "json_roundtrip (JObj kvs) =
     JObj (filter (\<lambda>kv. snd kv \<noteq> JUndefined) (map (map_prod id json_roundtrip) kvs))"

text \<open>A value with no \<^verbatim>\<open>undefined\<close> anywhere in it: what \<^verbatim>\<open>JSON.parse\<close> can return.\<close>

primrec is_json :: "jsval \<Rightarrow> bool" where
  "is_json JUndefined = False"
| "is_json JNull = True"
| "is_json (JBool b) = True"
| "is_json (JNum r) = True"
| "is_json (JStr s) = True"
| "is_json (JArr xs) = list_all (\<lambda>b. b) (map is_json xs)"
| "is_json (JObj kvs) = list_all (\<lambda>b. b) (map (\<lambda>kv. snd kv) (map (map_prod id is_json) kvs))"

text \<open>
  The string kept under the key \<^verbatim>\<open>LS_KEY = 'notes_app_items_v1'\<close>, up to what the code
  can see of it: \<^verbatim>\<open>!raw\<close> tells the empty string from the others, and
  \<^verbatim>\<open>JSON.parse(raw)\<close> either throws a \<^verbatim>\<open>SyntaxError\<close> or returns a value. The
  state of local storage is \<^verbatim>\<open>None\<close> when the key is absent (\<^verbatim>\<open>getItem\<close> returns
  \<^verbatim>\<open>null\<close>). Storage is taken to work: \<^verbatim>\<open>getItem\<close>, \<^verbatim>\<open>setItem\<close> and
  \<^verbatim>\<open>removeItem\<close> themselves do not throw.
\<close>

datatype raw =
    EmptyString           \<comment> \<open>the string \<^verbatim>\<open>""\<close>, which JSON.parse would reject\<close>
  | NotJSON               \<comment> \<open>a non-empty string that JSON.parse rejects\<close>
  | JSONText jsval        \<comment> \<open>a string that JSON.parse accepts, with the value it returns\<close>

type_synonym storage = "raw option"

text \<open>
  \<^verbatim>\<open>JSON.stringify(v)\<close>, as \<^verbatim>\<open>setItem\<close> stores it: \<^verbatim>\<open>JSON.stringify(undefined)\<close>
  is \<^verbatim>\<open>undefined\<close>, stored as the string \<^verbatim>\<open>"undefined"\<close>.
\<close>

definition JSON_stringify :: "jsval \<Rightarrow> raw" where
  "JSON_stringify v = (if v = JUndefined then NotJSON else JSONText (json_roundtrip v))"

text \<open>
  \<^verbatim>\<open>
  function lsReadAll() {
    try {
      const raw = localStorage.getItem(LS_KEY);
      if (!raw) return [];
      return JSON.parse(raw);
    } catch (e) {
      console.warn('Failed to parse local notes; resetting', e);
      localStorage.removeItem(LS_KEY);
      return [];
    }
  }
  function lsWriteAll(notes) {
    localStorage.setItem(LS_KEY, JSON.stringify(notes));
  }
  \<close>
\<close>

definition lsReadAll :: "storage \<Rightarrow> jsval \<times> storage" where
  "lsReadAll st =
     (case st of
        None \<Rightarrow> (JArr [], st)
      | Some EmptyString \<Rightarrow> (JArr [], st)
      | Some NotJSON \<Rightarrow> (JArr [], None)
      | Some (JSONText v) \<Rightarrow> (v, st))"

definition lsWriteAll :: "jsval \<Rightarrow> storage \<Rightarrow> storage" where
  "lsWriteAll notes st = Some (JSON_stringify notes)"

section \<open>The Note Normalizer\<close>

text \<open>
  \<^verbatim>\<open>
  function normalize(note) {
    return {
      id: note.id,
      title: note.title || '',
      content: note.content || '',
      updatedAt: note.updatedAt ? new Date(note.updatedAt).toISOString()
                                : new Date().toISOString(),
    };
  }
  \<close>
  The clock and the \<^verbatim>\<open>Date\<close> class belong to the platform and are parameters:
  \<^verbatim>\<open>now\<close> is the string \<^verbatim>\<open>new Date().toISOString()\<close> at the time of the call, and
  \<^verbatim>\<open>dateISO v\<close> is \<^verbatim>\<open>new Date(v).toISOString()\<close>, \<^verbatim>\<open>None\<close> when the date is
  invalid and \<^verbatim>\<open>toISOString\<close> throws a \<^verbatim>\<open>RangeError\<close>.
\<close>

definition normalize :: "(jsval \<Rightarrow> string option) \<Rightarrow> string \<Rightarrow> jsval \<Rightarrow> error + jsval" where
  "normalize dateISO now note =
     (case get_prop note ''id'' of
        Inl e \<Rightarrow> Inl e
      | Inr nid \<Rightarrow>
          let title = js_or (js_get note ''title'') (JStr '''');
              content = js_or (js_get note ''content'') (JStr '''')
          in if truthy (js_get note ''updatedAt'')
             then (case dateISO (js_get note ''updatedAt'') of
                     None \<Rightarrow> Inl RangeError
                   | Some str \<Rightarrow>
                       Inr (JObj [(''id'', nid), (''title'', title), (''content'', content),
                                  (''updatedAt'', JStr str)]))
             else Inr (JObj [(''id'', nid), (''title'', title), (''content'', content),
                             (''updatedAt'', JStr now)]))"

section \<open>The five operations, local fallback branch\<close>

text \<open>
  Each \<^verbatim>\<open>async\<close> function is modelled on the branch it takes when
  \<^verbatim>\<open>isBackendConfigured\<close> is false. A rejected promise is \<^verbatim>\<open>Inl\<close> of the error; the
  state of local storage after the call is returned in either case. Array methods called
  on something that is not an array (\<^verbatim>\<open>all.find\<close>, \<^verbatim>\<open>all.unshift\<close>, ...) throw a
  \<^verbatim>\<open>TypeError\<close>.
\<close>

text \<open>\<^verbatim>\<open>all.find(n => n.id === id)\<close>; \<^verbatim>\<open>undefined\<close> when nothing matches.\<close>

fun find_by_id :: "jsval \<Rightarrow> jsval list \<Rightarrow> error + jsval" where
  "find_by_id i [] = Inr JUndefined"
| "find_by_id i (n # ns) =
     (case get_prop n ''id'' of
        Inl e \<Rightarrow> Inl e
      | Inr v \<Rightarrow> if strict_eq v i then Inr n else find_by_id i ns)"

text \<open>\<^verbatim>\<open>all.findIndex(n => n.id === id)\<close>; \<^verbatim>\<open>-1\<close> when nothing matches.\<close>

fun findIndex_by_id :: "jsval \<Rightarrow> jsval list \<Rightarrow> error + int" where
  "findIndex_by_id i [] = Inr (- 1)"
| "findIndex_by_id i (n # ns) =
     (case get_prop n ''id'' of
        Inl e \<Rightarrow> Inl e
      | Inr v \<Rightarrow>
          if strict_eq v i then Inr 0
          else (case findIndex_by_id i ns of
                  Inl e \<Rightarrow> Inl e
                | Inr j \<Rightarrow> Inr (if j = - 1 then - 1 else j + 1)))"

text \<open>\<^verbatim>\<open>all.filter(n => n.id !== id)\<close>.\<close>

fun filter_not_id :: "jsval \<Rightarrow> jsval list \<Rightarrow> error + jsval list" where
  "filter_not_id i [] = Inr []"
| "filter_not_id i (n # ns) =
     (case get_prop n ''id'' of
        Inl e \<Rightarrow> Inl e
      | Inr v \<Rightarrow>
          (case filter_not_id i ns of
             Inl e \<Rightarrow> Inl e
           | Inr rest \<Rightarrow> Inr (if strict_eq v i then rest else n # rest)))"

text \<open>
  \<^verbatim>\<open>
  export async function fetchNotes() {
    ...
    return lsReadAll();
  }
  export async function fetchNote(id) {
    ...
    const all = lsReadAll();
    return all.find(n => n.id === id) || null;
  }
  \<close>
\<close>

definition fetchNotes :: "storage \<Rightarrow> (error + jsval) \<times> storage" where
  "fetchNotes st = (let (all, st1) = lsReadAll st in (Inr all, st1))"

definition fetchNote :: "jsval \<Rightarrow> storage \<Rightarrow> (error + jsval) \<times> storage" where
  "fetchNote i st =
     (let (all, st1) = lsReadAll st in
      case all of
        JArr ns \<Rightarrow>
          (case find_by_id i ns of
             Inl e \<Rightarrow> (Inl e, st1)
           | Inr r \<Rightarrow> (Inr (js_or r JNull), st1))
      | _ \<Rightarrow> (Inl TypeError, st1))"

text \<open>
  \<^verbatim>\<open>
  export async function createNote(note) {
    ...
    const all = lsReadAll();
    const now = new Date().toISOString();
    const newNote = {
      id: note.id || `n_${Math.random().toString(36).slice(2, 10)}`,
      title: note.title || 'Untitled',
      content: note.content || '',
      updatedAt: now,
    };
    all.unshift(newNote);
    lsWriteAll(all);
    return newNote;
  }
  \<close>
  \<^verbatim>\<open>token\<close> is the string \<^verbatim>\<open>Math.random().toString(36).slice(2, 10)\<close> that the call
  would draw.
\<close>

definition newNote_of :: "string \<Rightarrow> string \<Rightarrow> jsval \<Rightarrow> jsval" where
  "newNote_of now token note =
     JObj [(''id'', js_or (js_get note ''id'') (JStr (''n_'' @ token))),
           (''title'', js_or (js_get note ''title'') (JStr ''Untitled'')),
           (''content'', js_or (js_get note ''content'') (JStr '''')),
           (''updatedAt'', JStr now)]"

definition createNote :: "string \<Rightarrow> string \<Rightarrow> jsval \<Rightarrow> storage \<Rightarrow> (error + jsval) \<times> storage" where
  "createNote now token note st =
     (let (all, st1) = lsReadAll st in
      case get_prop note ''id'' of
        Inl e \<Rightarrow> (Inl e, st1)
      | Inr _ \<Rightarrow>
          let newNote = newNote_of now token note in
          (case all of
             JArr ns \<Rightarrow> (Inr newNote, lsWriteAll (JArr (newNote # ns)) st1)
           | _ \<Rightarrow> (Inl TypeError, st1)))"

text \<open>
  \<^verbatim>\<open>
  export async function updateNote(id, patch) {
    ...
    const all = lsReadAll();
    const idx = all.findIndex(n => n.id === id);
    if (idx === -1) throw new Error('Note not found');
    const now = new Date().toISOString();
    const updated = { ...all[idx], ...patch, updatedAt: now };
    all[idx] = updated;
    lsWriteAll(all);
    return updated;
  }
  \<close>
\<close>

definition merged :: "string \<Rightarrow> jsval \<Rightarrow> jsval \<Rightarrow> jsval" where
  "merged now old patch =
     JObj (define_prop (''updatedAt'', JStr now)
             (spread (own_entries patch) (spread (own_entries old) [])))"

definition updateNote :: "string \<Rightarrow> jsval \<Rightarrow> jsval \<Rightarrow> storage \<Rightarrow> (error + jsval) \<times> storage" where
  "updateNote now i patch st =
     (let (all, st1) = lsReadAll st in
      case all of
        JArr ns \<Rightarrow>
          (case findIndex_by_id i ns of
             Inl e \<Rightarrow> (Inl e, st1)
           | Inr idx \<Rightarrow>
               if idx = - 1 then (Inl NoteNotFound, st1)
               else let updated = merged now (ns ! nat idx) patch in
                    (Inr updated, lsWriteAll (JArr (ns[nat idx := updated])) st1))
      | _ \<Rightarrow> (Inl TypeError, st1))"

text \<open>
  \<^verbatim>\<open>
  export async function deleteNote(id) {
    ...
    const all = lsReadAll();
    const next = all.filter(n => n.id !== id);
    lsWriteAll(next);
    return true;
  }
  \<close>
\<close>

definition deleteNote :: "jsval \<Rightarrow> storage \<Rightarrow> (error + jsval) \<times> storage" where
  "deleteNote i st =
     (let (all, st1) = lsReadAll st in
      case all of
        JArr ns \<Rightarrow>
          (case filter_not_id i ns of
             Inl e \<Rightarrow> (Inl e, st1)
           | Inr next \<Rightarrow> (Inr (JBool True), lsWriteAll (JArr next) st1))
      | _ \<Rightarrow> (Inl TypeError, st1))"

section \<open>The debounce helper\<close>

text \<open>
  \<^verbatim>\<open>
  export function debounce(fn, wait = 400) {
    let t;
    return (...args) => {
      clearTimeout(t);
      t = setTimeout(() => fn(...args), wait);
    };
  }
  \<close>
  Time is the platform's clock in milliseconds. The state holds the closure's
  \<^verbatim>\<open>wait\<close> and its variable \<^verbatim>\<open>t\<close>, the timers this closure has set and that are
  still pending (id, due time, the arguments captured by the callback), and the calls of
  \<^verbatim>\<open>fn\<close> made so far (time and arguments). A timer stays pending until the platform
  runs its callback or \<^verbatim>\<open>clearTimeout\<close> removes it.
\<close>

record 'a sched =
  wait :: nat
  clock :: nat
  next_id :: nat
  pending :: "(nat \<times> nat \<times> 'a) list"
  t :: "nat option"
  fired :: "(nat \<times> 'a) list"

text \<open>
  \<^verbatim>\<open>debounce(fn, wait)\<close>, called when the clock reads \<^verbatim>\<open>start\<close>; \<^verbatim>\<open>None\<close> for a
  \<^verbatim>\<open>wait\<close> that is not passed.
\<close>

definition debounce :: "nat option \<Rightarrow> nat \<Rightarrow> 'a sched" where
  "debounce w start =
     \<lparr>wait = (case w of None \<Rightarrow> 400 | Some n \<Rightarrow> n),
      clock = start, next_id = 1, pending = [], t = None, fired = []\<rparr>"

definition clearTimeout :: "nat option \<Rightarrow> (nat \<times> nat \<times> 'a) list \<Rightarrow> (nat \<times> nat \<times> 'a) list" where
  "clearTimeout h ps = filter (\<lambda>p. Some (fst p) \<noteq> h) ps"

text \<open>One call of the function that \<^verbatim>\<open>debounce\<close> returns, at the current clock.\<close>

definition debounced :: "'a \<Rightarrow> 'a sched \<Rightarrow> 'a sched" where
  "debounced args st =
     (let ps = clearTimeout (t st) (pending st);
          h = next_id st
      in st\<lparr>next_id := h + 1,
            pending := ps @ [(h, clock st + wait st, args)],
            t := Some h\<rparr>)"

text \<open>
  What happens to the closure, in order of time. \<^verbatim>\<open>Call T args\<close>: the debounced function
  is called when the clock reads \<^verbatim>\<open>T\<close>. \<^verbatim>\<open>Run T\<close>: at \<^verbatim>\<open>T\<close> no code is running
  and the platform runs the callbacks of the timers that are due, earliest first. When the
  platform does so is its own choice: a callback never runs before its timer is due, it may
  run any time after, and nothing runs between two events of a timeline. A timer that is
  due and whose callback has not run yet is still pending, and \<^verbatim>\<open>clearTimeout\<close> cancels
  it like any other. Delays are taken in the range where the platform uses them as given
  (from one millisecond to \<^verbatim>\<open>2^31 - 1\<close>).
\<close>

datatype 'a event =
    Call nat 'a
  | Run nat

fun event_time :: "'a event \<Rightarrow> nat" where
  "event_time (Call T args) = T"
| "event_time (Run T) = T"

fun is_run :: "'a event \<Rightarrow> bool" where
  "is_run (Call T args) = False"
| "is_run (Run T) = True"

definition run_due :: "'a sched \<Rightarrow> 'a sched" where
  "run_due st =
     (let due = filter (\<lambda>p. fst (snd p) \<le> clock st) (pending st);
          later = filter (\<lambda>p. \<not> fst (snd p) \<le> clock st) (pending st)
      in st\<lparr>pending := later,
            fired := fired st @ map (\<lambda>p. (clock st, snd (snd p)))
                                    (sort_key (\<lambda>p. fst (snd p)) due)\<rparr>)"

fun step :: "'a event \<Rightarrow> 'a sched \<Rightarrow> 'a sched" where
  "step (Call T args) st = debounced args (st\<lparr>clock := T\<rparr>)"
| "step (Run T) st = run_due (st\<lparr>clock := T\<rparr>)"

definition exec :: "'a event list \<Rightarrow> 'a sched \<Rightarrow> 'a sched" where
  "exec es st = fold step es st"

text \<open>The events of a timeline come in order of time, none before \<^verbatim>\<open>clk\<close>.\<close>

fun in_order :: "nat \<Rightarrow> 'a event list \<Rightarrow> bool" where
  "in_order clk [] = True"
| "in_order clk (e # es) = (clk \<le> event_time e \<and> in_order (event_time e) es)"

text \<open>
  A burst that follows a call made at \<^verbatim>\<open>prev\<close>: every call comes less than the window
  \<^verbatim>\<open>w\<close> after the call before it.
\<close>

fun burst :: "nat \<Rightarrow> nat \<Rightarrow> 'a event list \<Rightarrow> bool" where
  "burst w prev [] = True"
| "burst w prev (Call T args # es) = (T < prev + w \<and> burst w T es)"
| "burst w prev (Run T # es) = burst w prev es"

text \<open>The last call of a timeline that follows the call \<^verbatim>\<open>c\<close>: its time and arguments.\<close>

fun last_call :: "nat \<times> 'a \<Rightarrow> 'a event list \<Rightarrow> nat \<times> 'a" where
  "last_call c [] = c"
| "last_call c (Call T args # es) = last_call (T, args) es"
| "last_call c (Run T # es) = last_call c es"

text \<open>The times at which the platform runs timers after the last call of a timeline.\<close>

definition trailing_runs :: "'a event list \<Rightarrow> nat list" where
  "trailing_runs es = rev (map event_time (takeWhile is_run (rev es)))"

text \<open>
  What holds of every state the closure can reach: the only timer that can be pending is
  the one \<^verbatim>\<open>t\<close> refers to.
\<close>

definition one_timer :: "'a sched \<Rightarrow> bool" where
  "one_timer st = (case pending st of
                     [] \<Rightarrow> True
                   | [p] \<Rightarrow> t st = Some (fst p)
                   | _ \<Rightarrow> False)"

section \<open>Vocabulary of the properties\<close>

fun is_object :: "jsval \<Rightarrow> bool" where
  "is_object (JObj kvs) = True"
| "is_object v = False"

fun is_string :: "jsval \<Rightarrow> bool" where
  "is_string (JStr s) = True"
| "is_string v = False"

text \<open>The \<^verbatim>\<open>id\<close> of each element of a collection, in order.\<close>

definition note_ids :: "jsval list \<Rightarrow> jsval list" where
  "note_ids ns = map (\<lambda>n. js_get n ''id'') ns"

text \<open>
  A caller making one \<^verbatim>\<open>createNote\<close> call after another, each awaited; a call is the
  clock reading, the random token and the argument. The first rejection ends the sequence.
\<close>

fun create_all :: "(string \<times> string \<times> jsval) list \<Rightarrow> storage \<Rightarrow> (error + jsval list) \<times> storage" where
  "create_all [] st = (Inr [], st)"
| "create_all (c # cs) st =
     (case createNote (fst c) (fst (snd c)) (snd (snd c)) st of
        (Inl e, st1) \<Rightarrow> (Inl e, st1)
      | (Inr n, st1) \<Rightarrow>
          (case create_all cs st1 of
             (Inl e, st2) \<Rightarrow> (Inl e, st2)
           | (Inr rest, st2) \<Rightarrow> (Inr (n # rest), st2)))"

text \<open>The id a \<^verbatim>\<open>createNote\<close> call gives its note: \<^verbatim>\<open>note.id || `n_${token}`\<close>.\<close>

definition chosen_id :: "string \<times> string \<times> jsval \<Rightarrow> jsval" where
  "chosen_id c = js_or (js_get (snd (snd c)) ''id'') (JStr (''n_'' @ fst (snd c)))"

text \<open>
  Storage as the operations leave it: what is read from it is an array of JSON objects
  (the empty array when the key is absent or does not parse).
\<close>

definition note_store :: "storage \<Rightarrow> bool" where
  "note_store st =
     (case fst (lsReadAll st) of
        JArr ns \<Rightarrow> list_all (\<lambda>n. is_object n \<and> is_json n) ns
      | _ \<Rightarrow> False)"

section \<open>JSON values and property lists\<close>

lemma is_json_JArr [simp]: "is_json (JArr xs) \<longleftrightarrow> (\<forall>x\<in>set xs. is_json x)"
  by (simp add: list_all_iff)

lemma is_json_JObj [simp]: "is_json (JObj kvs) \<longleftrightarrow> (\<forall>kv\<in>set kvs. is_json (snd kv))"
  by (auto simp: list_all_iff)

declare is_json.simps(6) [simp del]
declare is_json.simps(7) [simp del]

lemma is_json_not_undefined: "is_json v \<Longrightarrow> v \<noteq> JUndefined"
  by auto

lemma json_roundtrip_id: "is_json v \<Longrightarrow> json_roundtrip v = v"
proof (induction v)
  case (JArr xs)
  then have "\<forall>x\<in>set xs. json_roundtrip x = x \<and> x \<noteq> JUndefined"
    by auto
  then have "map (\<lambda>v. if v = JUndefined then JNull else v) (map json_roundtrip xs) = xs"
    by (simp add: map_idI)
  then show ?case by simp
next
  case (JObj kvs)
  have ok: "\<forall>kv\<in>set kvs. json_roundtrip (snd kv) = snd kv \<and> snd kv \<noteq> JUndefined"
  proof
    fix kv assume kv: "kv \<in> set kvs"
    with JObj.prems have j: "is_json (snd kv)" by simp
    have "snd kv \<in> Basic_BNFs.snds kv" by (cases kv) simp
    with JObj.IH kv j show "json_roundtrip (snd kv) = snd kv \<and> snd kv \<noteq> JUndefined"
      by (auto dest: is_json_not_undefined)
  qed
  then have m: "map (map_prod id json_roundtrip) kvs = kvs"
    by (intro map_idI) (auto simp: map_prod_def split: prod.splits)
  from ok have "filter (\<lambda>kv. snd kv \<noteq> JUndefined) kvs = kvs"
    by (simp add: filter_id_conv)
  with m show ?case by simp
qed simp_all

lemma json_roundtrip_undef: "json_roundtrip v = JUndefined \<longleftrightarrow> v = JUndefined"
  by (cases v) auto

text \<open>Whatever \<^verbatim>\<open>lsWriteAll\<close> stores reads back as a JSON value.\<close>

lemma is_json_roundtrip: "v \<noteq> JUndefined \<Longrightarrow> is_json (json_roundtrip v)"
proof (induction v)
  case (JArr xs)
  have "\<forall>x\<in>set xs. is_json (if json_roundtrip x = JUndefined then JNull else json_roundtrip x)"
    using JArr.IH by (auto simp: json_roundtrip_undef)
  then show ?case by auto
next
  case (JObj kvs)
  have "\<forall>kv\<in>set kvs. json_roundtrip (snd kv) \<noteq> JUndefined \<longrightarrow> is_json (json_roundtrip (snd kv))"
  proof
    fix kv assume kv: "kv \<in> set kvs"
    have "snd kv \<in> Basic_BNFs.snds kv" by (cases kv) simp
    with JObj.IH kv show "json_roundtrip (snd kv) \<noteq> JUndefined \<longrightarrow> is_json (json_roundtrip (snd kv))"
      by (auto simp: json_roundtrip_undef)
  qed
  then show ?case by auto
qed simp_all

lemma lookup_append:
  "lookup (kvs @ [(k', v)]) k = (if k = k' then v else lookup kvs k)"
  by (simp add: lookup_def)

lemma lookup_in_keys: "k \<notin> fst ` set kvs \<Longrightarrow> lookup kvs k = JUndefined"
  by (simp add: lookup_def map_of_eq_None_iff [THEN iffD2])

lemma lookup_replace:
  "k' \<in> fst ` set kvs \<Longrightarrow>
   lookup (map (\<lambda>e. if fst e = k' then (fst e, v) else e) kvs) k = (if k = k' then v else lookup kvs k)"
proof (induction kvs rule: rev_induct)
  case Nil
  then show ?case by simp
next
  case (snoc e kvs)
  show ?case
  proof (cases "k' \<in> fst ` set kvs")
    case True
    with snoc.IH show ?thesis by (cases e) (auto simp: lookup_def)
  next
    case False
    then have "map (\<lambda>e. if fst e = k' then (fst e, v) else e) kvs = kvs"
      by (intro map_idI) auto
    with snoc.prems False show ?thesis by (cases e) (auto simp: lookup_def)
  qed
qed

lemma lookup_define_prop:
  "lookup (define_prop kv kvs) k = (if k = fst kv then snd kv else lookup kvs k)"
  by (cases kv) (simp add: define_prop_def lookup_replace lookup_append)

lemma lookup_spread:
  "lookup (spread es acc) k = (if k \<in> fst ` set es then lookup es k else lookup acc k)"
  unfolding spread_def
proof (induction es arbitrary: acc rule: rev_induct)
  case Nil
  then show ?case by simp
next
  case (snoc e es)
  then show ?case by (cases e) (auto simp: lookup_define_prop lookup_append)
qed

section \<open>Reading a store that does not parse\<close>

text \<open>
  C4, as amended. When the key holds a string that is not valid JSON, \<^verbatim>\<open>fetchNotes\<close>
  returns the empty collection and no error; the key is removed when the string is not
  empty, and left as it is when the string is empty (\<^verbatim>\<open>if (!raw) return []\<close> returns
  before \<^verbatim>\<open>JSON.parse\<close> is tried).
\<close>

theorem fetchNotes_not_json:
  "\<forall>v. r \<noteq> JSONText v \<Longrightarrow>
   fetchNotes (Some r) = (Inr (JArr []), if r = EmptyString then Some EmptyString else None)"
  by (cases r) (simp_all add: fetchNotes_def lsReadAll_def)

theorem fetchNotes_not_json_witness:
  "(\<forall>v. NotJSON \<noteq> JSONText v) \<and> fetchNotes (Some NotJSON) = (Inr (JArr []), None)"
  using fetchNotes_not_json [of NotJSON] by simp

text \<open>
  C4 as stated fails for the empty string: it is not valid JSON, the call returns the empty
  collection, and the key still holds it.
\<close>

theorem fetchNotes_empty_string_kept:
  "fetchNotes (Some EmptyString) = (Inr (JArr []), Some EmptyString)"
  by (simp add: fetchNotes_def lsReadAll_def)

section \<open>What the array methods compute\<close>

lemma get_prop_ok: "n \<noteq> JNull \<Longrightarrow> n \<noteq> JUndefined \<Longrightarrow> get_prop n k = Inr (js_get n k)"
  by (cases n) simp_all

lemma get_prop_json: "is_json n \<Longrightarrow> n \<noteq> JNull \<Longrightarrow> get_prop n k = Inr (js_get n k)"
  by (cases n) simp_all

lemma get_prop_object: "is_object n \<Longrightarrow> get_prop n k = Inr (js_get n k)"
  by (cases n) simp_all

lemma find_by_id_eq:
  "\<forall>n\<in>set ns. n \<noteq> JNull \<and> n \<noteq> JUndefined \<Longrightarrow>
   find_by_id i ns =
     Inr (case List.find (\<lambda>n. strict_eq (js_get n ''id'') i) ns of None \<Rightarrow> JUndefined | Some n \<Rightarrow> n)"
  by (induction ns) (simp_all add: get_prop_ok)

lemma filter_not_id_eq:
  "\<forall>n\<in>set ns. n \<noteq> JNull \<and> n \<noteq> JUndefined \<Longrightarrow>
   filter_not_id i ns = Inr (filter (\<lambda>n. \<not> strict_eq (js_get n ''id'') i) ns)"
  by (induction ns) (simp_all add: get_prop_ok)

lemma findIndex_absent:
  "\<forall>n\<in>set ns. n \<noteq> JNull \<and> n \<noteq> JUndefined \<and> \<not> strict_eq (js_get n ''id'') i \<Longrightarrow>
   findIndex_by_id i ns = Inr (- 1)"
  by (induction ns) (simp_all add: get_prop_ok)

lemma findIndex_present:
  "\<forall>n\<in>set ns. n \<noteq> JNull \<and> n \<noteq> JUndefined \<Longrightarrow>
   \<exists>n\<in>set ns. strict_eq (js_get n ''id'') i \<Longrightarrow>
   \<exists>idx. findIndex_by_id i ns = Inr (int idx) \<and> idx < length ns \<and>
         strict_eq (js_get (ns ! idx) ''id'') i \<and>
         (\<forall>j<idx. \<not> strict_eq (js_get (ns ! j) ''id'') i)"
proof (induction ns)
  case Nil
  then show ?case by simp
next
  case (Cons n ns)
  show ?case
  proof (cases "strict_eq (js_get n ''id'') i")
    case True
    with Cons.prems show ?thesis by (intro exI [of _ 0]) (simp add: get_prop_ok)
  next
    case False
    with Cons obtain idx where idx: "findIndex_by_id i ns = Inr (int idx)" "idx < length ns"
      "strict_eq (js_get (ns ! idx) ''id'') i" "\<forall>j<idx. \<not> strict_eq (js_get (ns ! j) ''id'') i"
      by auto
    have "\<forall>j<Suc idx. \<not> strict_eq (js_get ((n # ns) ! j) ''id'') i"
      using False idx(4) by (auto simp: less_Suc_eq_0_disj)
    with False idx Cons.prems show ?thesis
      by (intro exI [of _ "Suc idx"]) (simp add: get_prop_ok)
  qed
qed

text \<open>
  When what is stored parses to something that is not an array, every operation but
  \<^verbatim>\<open>fetchNotes\<close> rejects with a \<^verbatim>\<open>TypeError\<close>; so does an operation that meets a
  \<^verbatim>\<open>null\<close> element before it finds its note. The properties below are stated for a
  store that holds an array.
\<close>

lemma fetchNote_not_array:
  "\<forall>ns. fst (lsReadAll st) \<noteq> JArr ns \<Longrightarrow> fst (fetchNote i st) = Inl TypeError"
  by (cases "lsReadAll st") (simp add: fetchNote_def split: jsval.splits)

lemma deleteNote_not_array:
  "\<forall>ns. fst (lsReadAll st) \<noteq> JArr ns \<Longrightarrow> fst (deleteNote i st) = Inl TypeError"
  by (cases "lsReadAll st") (simp add: deleteNote_def split: jsval.splits)

lemma updateNote_not_array:
  "\<forall>ns. fst (lsReadAll st) \<noteq> JArr ns \<Longrightarrow> fst (updateNote now i patch st) = Inl TypeError"
  by (cases "lsReadAll st") (simp add: updateNote_def split: jsval.splits)

lemma createNote_not_array:
  "\<forall>ns. fst (lsReadAll st) \<noteq> JArr ns \<Longrightarrow> fst (createNote now token note st) = Inl TypeError"
proof (cases "lsReadAll st")
  case (Pair v st1)
  assume "\<forall>ns. fst (lsReadAll st) \<noteq> JArr ns"
  with Pair have v: "\<forall>ns. v \<noteq> JArr ns" by simp
  show ?thesis
  proof (cases "get_prop note ''id''")
    case (Inl e)
    then have "e = TypeError" by (cases "note") simp_all
    with Inl Pair show ?thesis by (simp add: createNote_def)
  next
    case (Inr w)
    with Pair v show ?thesis by (cases v) (simp_all add: createNote_def Let_def)
  qed
qed

lemma null_element:
  "fst (fetchNote i (Some (JSONText (JArr (JNull # ns))))) = Inl TypeError"
  "fst (updateNote now i patch (Some (JSONText (JArr (JNull # ns))))) = Inl TypeError"
  "fst (deleteNote i (Some (JSONText (JArr (JNull # ns))))) = Inl TypeError"
  by (simp_all add: fetchNote_def updateNote_def deleteNote_def lsReadAll_def)

section \<open>Reading back what was written\<close>

lemma lsReadAll_again: "fst (lsReadAll st) = v \<Longrightarrow> lsReadAll (snd (lsReadAll st)) = (v, snd (lsReadAll st))"
  by (auto simp: lsReadAll_def split: option.splits raw.splits)

text \<open>Whatever array \<^verbatim>\<open>lsWriteAll\<close> is given, what is read back is a JSON value.\<close>

lemma lsReadAll_written_json: "is_json (fst (lsReadAll (lsWriteAll (JArr ns) st)))"
  using is_json_roundtrip [of "JArr ns"]
  by (simp add: lsReadAll_def lsWriteAll_def JSON_stringify_def del: json_roundtrip.simps)

lemma lsReadAll_written:
  "\<forall>n\<in>set ns. is_json n \<Longrightarrow> lsReadAll (lsWriteAll (JArr ns) st) = (JArr ns, lsWriteAll (JArr ns) st)"
proof -
  assume "\<forall>n\<in>set ns. is_json n"
  then have "json_roundtrip (JArr ns) = JArr ns" by (intro json_roundtrip_id) simp
  then show ?thesis by (simp add: lsReadAll_def lsWriteAll_def JSON_stringify_def)
qed

section \<open>Creating a note\<close>

lemma js_get_json: "is_json v \<Longrightarrow> js_get v k = JUndefined \<or> is_json (js_get v k)"
proof (cases v)
  case (JObj kvs)
  assume j: "is_json v"
  show ?thesis
  proof (cases "map_of (rev kvs) k")
    case None
    with JObj show ?thesis by (simp add: lookup_def)
  next
    case (Some w)
    then have "(k, w) \<in> set kvs" by (auto dest: map_of_SomeD)
    with j JObj have "is_json w" by auto
    with Some JObj show ?thesis by (simp add: lookup_def)
  qed
qed simp_all

lemma js_or_json: "is_json v \<Longrightarrow> is_json (js_or (js_get v k) (JStr s))"
  using js_get_json [of v k] by (auto simp: js_or_def)

lemma newNote_json: "is_json note \<Longrightarrow> is_json (newNote_of now token note)"
  by (simp add: newNote_of_def js_or_json)

lemma js_get_newNote:
  "js_get (newNote_of now token note) ''id'' = js_or (js_get note ''id'') (JStr (''n_'' @ token))"
  "js_get (newNote_of now token note) ''title'' = js_or (js_get note ''title'') (JStr ''Untitled'')"
  "js_get (newNote_of now token note) ''content'' = js_or (js_get note ''content'') (JStr '''')"
  "js_get (newNote_of now token note) ''updatedAt'' = JStr now"
  by (simp_all add: newNote_of_def lookup_def)

lemma createNote_eq:
  assumes "fst (lsReadAll st) = JArr ns" and "note \<noteq> JNull" and "note \<noteq> JUndefined"
  shows "createNote now token note st =
           (Inr (newNote_of now token note),
            lsWriteAll (JArr (newNote_of now token note # ns)) (snd (lsReadAll st)))"
  using assms by (cases "lsReadAll st") (simp add: createNote_def get_prop_ok Let_def)

text \<open>
  C9. In local fallback mode, on a store that holds a collection, \<^verbatim>\<open>createNote(note)\<close>
  returns the new note and persists the collection with the new note in front, so that a
  following \<^verbatim>\<open>fetchNotes\<close> returns it first and the earlier notes after it. The new note
  has four fields: its id is the id of the argument when that is truthy and \<^verbatim>\<open>'n_'\<close>
  with the random token otherwise; its title is the title of the argument when that is
  truthy and \<^verbatim>\<open>'Untitled'\<close> otherwise, so \<^verbatim>\<open>'Untitled'\<close> when the argument has none;
  its content is the content of the argument when that is truthy and the empty string
  otherwise, so the empty string when the argument has none; its \<^verbatim>\<open>updatedAt\<close> is the
  current time.
\<close>

theorem createNote_prepends:
  assumes "fst (lsReadAll st) = JArr ns" and "\<forall>n\<in>set ns. is_json n"
    and "is_json note" and "note \<noteq> JNull"
  shows "\<exists>n st'. createNote now token note st = (Inr n, st') \<and>
           fetchNotes st' = (Inr (JArr (n # ns)), st') \<and>
           n = JObj [(''id'', if truthy (js_get note ''id'') then js_get note ''id''
                              else JStr (''n_'' @ token)),
                     (''title'', if truthy (js_get note ''title'') then js_get note ''title''
                                 else JStr ''Untitled''),
                     (''content'', if truthy (js_get note ''content'') then js_get note ''content''
                                   else JStr ''''),
                     (''updatedAt'', JStr now)] \<and>
           (js_get note ''title'' = JUndefined \<longrightarrow> js_get n ''title'' = JStr ''Untitled'') \<and>
           (js_get note ''content'' = JUndefined \<longrightarrow> js_get n ''content'' = JStr '''')"
proof -
  let ?n = "newNote_of now token note"
  let ?st = "lsWriteAll (JArr (?n # ns)) (snd (lsReadAll st))"
  from assms(3) have nu: "note \<noteq> JUndefined" by auto
  have c: "createNote now token note st = (Inr ?n, ?st)"
    using assms(1,4) nu by (rule createNote_eq)
  have "\<forall>m\<in>set (?n # ns). is_json m"
    using assms(2,3) by (simp add: newNote_json)
  then have "lsReadAll ?st = (JArr (?n # ns), ?st)" by (rule lsReadAll_written)
  then have f: "fetchNotes ?st = (Inr (JArr (?n # ns)), ?st)" by (simp add: fetchNotes_def)
  have e: "?n = JObj [(''id'', if truthy (js_get note ''id'') then js_get note ''id''
                              else JStr (''n_'' @ token)),
                     (''title'', if truthy (js_get note ''title'') then js_get note ''title''
                                 else JStr ''Untitled''),
                     (''content'', if truthy (js_get note ''content'') then js_get note ''content''
                                   else JStr ''''),
                     (''updatedAt'', JStr now)]"
    by (simp add: newNote_of_def js_or_def)
  have d: "js_get note ''title'' = JUndefined \<longrightarrow> js_get ?n ''title'' = JStr ''Untitled''"
    "js_get note ''content'' = JUndefined \<longrightarrow> js_get ?n ''content'' = JStr ''''"
    by (simp_all add: js_get_newNote js_or_def)
  from c f e d show ?thesis by blast
qed

theorem createNote_prepends_witness:
  "(\<exists>n st'. createNote ''2024-05-02T08:30:00.000Z'' ''7hd02mzp''
               (JObj [(''title'', JStr ''Groceries'')])
               (Some (JSONText (JArr [JObj [(''id'', JStr ''n_k3x9q2ab''), (''title'', JStr ''Old''),
                                            (''content'', JStr ''x''),
                                            (''updatedAt'', JStr ''2024-05-01T10:00:00.000Z'')]]))) =
               (Inr n, st') \<and>
      fetchNotes st' =
        (Inr (JArr [n, JObj [(''id'', JStr ''n_k3x9q2ab''), (''title'', JStr ''Old''),
                             (''content'', JStr ''x''),
                             (''updatedAt'', JStr ''2024-05-01T10:00:00.000Z'')]]), st') \<and>
      n = JObj [(''id'', JStr ''n_7hd02mzp''), (''title'', JStr ''Groceries''),
                (''content'', JStr ''''), (''updatedAt'', JStr ''2024-05-02T08:30:00.000Z'')]) \<and>
   (\<exists>n st'. createNote ''2024-05-02T08:30:00.000Z'' ''7hd02mzp''
               (JObj [(''id'', JStr ''mine''), (''content'', JStr ''milk'')]) None = (Inr n, st') \<and>
      fetchNotes st' = (Inr (JArr [n]), st') \<and>
      n = JObj [(''id'', JStr ''mine''), (''title'', JStr ''Untitled''),
                (''content'', JStr ''milk''), (''updatedAt'', JStr ''2024-05-02T08:30:00.000Z'')])"
proof -
  let ?old = "JObj [(''id'', JStr ''n_k3x9q2ab''), (''title'', JStr ''Old''), (''content'', JStr ''x''),
                    (''updatedAt'', JStr ''2024-05-01T10:00:00.000Z'')]"
  have h1: "fst (lsReadAll (Some (JSONText (JArr [?old])))) = JArr [?old]"
    by (simp add: lsReadAll_def)
  have h2: "\<forall>n\<in>set [?old]. is_json n" by simp
  have h3: "is_json (JObj [(''title'', JStr ''Groceries'')])"
    "JObj [(''title'', JStr ''Groceries'')] \<noteq> JNull" by simp_all
  have g1: "fst (lsReadAll None) = JArr []" by (simp add: lsReadAll_def)
  have g2: "\<forall>n\<in>set ([] :: jsval list). is_json n" by simp
  have g3: "is_json (JObj [(''id'', JStr ''mine''), (''content'', JStr ''milk'')])"
    "JObj [(''id'', JStr ''mine''), (''content'', JStr ''milk'')] \<noteq> JNull" by simp_all
  from createNote_prepends [OF h1 h2 h3, of "''2024-05-02T08:30:00.000Z''" "''7hd02mzp''"]
       createNote_prepends [OF g1 g2 g3, of "''2024-05-02T08:30:00.000Z''" "''7hd02mzp''"]
  show ?thesis by (simp add: lookup_def)
qed

section \<open>Create, then fetch by id\<close>

lemma lsReadAll_written_head:
  assumes "is_json n"
  shows "\<exists>rest. lsReadAll (lsWriteAll (JArr (n # ns)) st) = (JArr (n # rest), lsWriteAll (JArr (n # ns)) st)"
proof -
  from assms have "json_roundtrip n = n" "n \<noteq> JUndefined"
    by (auto simp: json_roundtrip_id)
  then show ?thesis by (simp add: lsReadAll_def lsWriteAll_def JSON_stringify_def)
qed

lemma is_primitive_js_or: "is_primitive a \<Longrightarrow> is_primitive (js_or a (JStr s))"
  by (simp add: js_or_def)

lemma truthy_js_or: "truthy (js_or a (JStr (c # s)))"
  by (simp add: js_or_def)

text \<open>
  C1, as amended. After \<^verbatim>\<open>createNote(note)\<close> in local fallback mode (the argument a JSON
  object whose \<^verbatim>\<open>id\<close>, if any, is not an array or object), \<^verbatim>\<open>fetchNote\<close> with the
  returned id yields the note just created: its title is the title passed when that is
  truthy and \<^verbatim>\<open>'Untitled'\<close> otherwise, its content is the content passed when that is
  truthy and the empty string otherwise, its id is the returned id and is defined, and its
  \<^verbatim>\<open>updatedAt\<close> is the time of creation.
\<close>

theorem create_then_fetchNote:
  assumes "fst (lsReadAll st) = JArr ns" and "is_json note" and "note \<noteq> JNull"
    and "is_primitive (js_get note ''id'')"
  shows "\<exists>n st' n'. createNote now token note st = (Inr n, st') \<and>
           fetchNote (js_get n ''id'') st' = (Inr n', st') \<and>
           js_get n' ''title'' =
             (if truthy (js_get note ''title'') then js_get note ''title'' else JStr ''Untitled'') \<and>
           js_get n' ''content'' =
             (if truthy (js_get note ''content'') then js_get note ''content'' else JStr '''') \<and>
           js_get n' ''id'' = js_get n ''id'' \<and> js_get n' ''id'' \<noteq> JUndefined \<and>
           js_get n' ''updatedAt'' = JStr now"
proof -
  let ?n = "newNote_of now token note"
  let ?st = "lsWriteAll (JArr (?n # ns)) (snd (lsReadAll st))"
  let ?i = "js_get ?n ''id''"
  from assms(2) have nu: "note \<noteq> JUndefined" by auto
  have c: "createNote now token note st = (Inr ?n, ?st)"
    using assms(1,3) nu by (rule createNote_eq)
  have "is_json ?n" using assms(2) by (rule newNote_json)
  then obtain rest where r: "lsReadAll ?st = (JArr (?n # rest), ?st)"
    using lsReadAll_written_head by blast
  have p: "is_primitive ?i" "truthy ?i"
    using assms(4) by (simp_all add: js_get_newNote is_primitive_js_or truthy_js_or)
  have o: "get_prop ?n ''id'' = Inr ?i" "js_or ?n JNull = ?n"
    by (simp_all add: newNote_of_def js_or_def)
  have "find_by_id ?i (?n # rest) = Inr ?n"
    using p o by (simp add: strict_eq_def)
  with r o have f: "fetchNote ?i ?st = (Inr ?n, ?st)"
    by (simp add: fetchNote_def)
  have "?i \<noteq> JUndefined" using p(2) by auto
  with c f show ?thesis
    by (auto simp: js_get_newNote js_or_def)
qed

theorem create_then_fetchNote_witness:
  "fst (lsReadAll None) = JArr [] \<and>
   is_json (JObj [(''title'', JStr ''Groceries''), (''content'', JStr ''milk'')]) \<and>
   (\<exists>n st' n'. createNote ''2024-05-01T10:00:00.000Z'' ''k3x9q2ab''
                   (JObj [(''title'', JStr ''Groceries''), (''content'', JStr ''milk'')]) None = (Inr n, st') \<and>
      fetchNote (js_get n ''id'') st' = (Inr n', st') \<and>
      js_get n' ''title'' = JStr ''Groceries'' \<and> js_get n' ''content'' = JStr ''milk'' \<and>
      js_get n' ''id'' = js_get n ''id'' \<and> js_get n' ''id'' \<noteq> JUndefined \<and>
      js_get n' ''updatedAt'' = JStr ''2024-05-01T10:00:00.000Z'')"
  using create_then_fetchNote [of None "[]"
          "JObj [(''title'', JStr ''Groceries''), (''content'', JStr ''milk'')]"
          "''2024-05-01T10:00:00.000Z''" "''k3x9q2ab''"]
  by (simp add: lsReadAll_def lookup_def)

text \<open>
  C1 as stated fails for an empty title: \<^verbatim>\<open>create({title: '', content: 'milk'})\<close> on an
  empty store, then \<^verbatim>\<open>getOne\<close> of the returned id, gives the title \<^verbatim>\<open>'Untitled'\<close>,
  not the title passed.
\<close>

theorem create_empty_title_not_kept:
  "createNote ''2024-05-01T10:00:00.000Z'' ''k3x9q2ab''
     (JObj [(''title'', JStr ''''), (''content'', JStr ''milk'')]) None =
     (Inr (JObj [(''id'', JStr ''n_k3x9q2ab''), (''title'', JStr ''Untitled''),
                 (''content'', JStr ''milk''), (''updatedAt'', JStr ''2024-05-01T10:00:00.000Z'')]),
      Some (JSONText (JArr [JObj [(''id'', JStr ''n_k3x9q2ab''), (''title'', JStr ''Untitled''),
                 (''content'', JStr ''milk''), (''updatedAt'', JStr ''2024-05-01T10:00:00.000Z'')]]))) \<and>
   fetchNote (JStr ''n_k3x9q2ab'')
     (Some (JSONText (JArr [JObj [(''id'', JStr ''n_k3x9q2ab''), (''title'', JStr ''Untitled''),
                 (''content'', JStr ''milk''), (''updatedAt'', JStr ''2024-05-01T10:00:00.000Z'')]]))) =
     (Inr (JObj [(''id'', JStr ''n_k3x9q2ab''), (''title'', JStr ''Untitled''),
                 (''content'', JStr ''milk''), (''updatedAt'', JStr ''2024-05-01T10:00:00.000Z'')]),
      Some (JSONText (JArr [JObj [(''id'', JStr ''n_k3x9q2ab''), (''title'', JStr ''Untitled''),
                 (''content'', JStr ''milk''), (''updatedAt'', JStr ''2024-05-01T10:00:00.000Z'')]])))"
  by (simp add: createNote_def fetchNote_def lsReadAll_def lsWriteAll_def JSON_stringify_def
        newNote_of_def js_or_def lookup_def strict_eq_def Let_def)

section \<open>Deleting a note\<close>

lemma deleteNote_eq:
  assumes "fst (lsReadAll st) = JArr ns" and "\<forall>n\<in>set ns. n \<noteq> JNull \<and> n \<noteq> JUndefined"
  shows "deleteNote i st =
           (Inr (JBool True),
            lsWriteAll (JArr (filter (\<lambda>n. \<not> strict_eq (js_get n ''id'') i) ns)) (snd (lsReadAll st)))"
  using assms by (cases "lsReadAll st") (simp add: deleteNote_def filter_not_id_eq)

text \<open>
  C8. In local fallback mode, on a store that holds a collection of JSON values none of
  which is \<^verbatim>\<open>null\<close>, \<^verbatim>\<open>deleteNote(id)\<close> resolves to \<^verbatim>\<open>true\<close> for every id, present
  or not; the collection it leaves is the old one without the elements whose id is
  \<^verbatim>\<open>id\<close>, so none is left with that id; a second \<^verbatim>\<open>deleteNote(id)\<close> resolves to
  \<^verbatim>\<open>true\<close> as well and leaves storage as the first call left it.
\<close>

theorem deleteNote_idempotent:
  assumes "fst (lsReadAll st) = JArr ns" and "\<forall>n\<in>set ns. is_json n \<and> n \<noteq> JNull"
  shows "\<exists>st1 ms. deleteNote i st = (Inr (JBool True), st1) \<and>
           fetchNotes st1 = (Inr (JArr ms), st1) \<and>
           ms = filter (\<lambda>n. \<not> strict_eq (js_get n ''id'') i) ns \<and>
           (\<forall>n\<in>set ms. \<not> strict_eq (js_get n ''id'') i) \<and>
           deleteNote i st1 = (Inr (JBool True), st1)"
proof -
  let ?ms = "filter (\<lambda>n. \<not> strict_eq (js_get n ''id'') i) ns"
  let ?st1 = "lsWriteAll (JArr ?ms) (snd (lsReadAll st))"
  from assms(2) have ok: "\<forall>n\<in>set ns. n \<noteq> JNull \<and> n \<noteq> JUndefined" by auto
  have d1: "deleteNote i st = (Inr (JBool True), ?st1)"
    using assms(1) ok by (rule deleteNote_eq)
  have j: "\<forall>n\<in>set ?ms. is_json n" using assms(2) by simp
  then have r: "lsReadAll ?st1 = (JArr ?ms, ?st1)" by (rule lsReadAll_written)
  then have f: "fetchNotes ?st1 = (Inr (JArr ?ms), ?st1)" by (simp add: fetchNotes_def)
  have ok': "\<forall>n\<in>set ?ms. n \<noteq> JNull \<and> n \<noteq> JUndefined" using ok by simp
  have "filter (\<lambda>n. \<not> strict_eq (js_get n ''id'') i) ?ms = ?ms" by simp
  moreover have "lsWriteAll (JArr ?ms) ?st1 = ?st1" by (simp add: lsWriteAll_def)
  moreover have "deleteNote i ?st1 =
      (Inr (JBool True),
       lsWriteAll (JArr (filter (\<lambda>n. \<not> strict_eq (js_get n ''id'') i) ?ms)) (snd (lsReadAll ?st1)))"
    using r ok' by (intro deleteNote_eq) simp_all
  ultimately have d2: "deleteNote i ?st1 = (Inr (JBool True), ?st1)"
    using r by (simp add: lsWriteAll_def)
  show ?thesis using d1 f d2 by auto
qed

theorem deleteNote_idempotent_witness:
  "(\<exists>st1 ms. deleteNote (JStr ''n_a'')
       (Some (JSONText (JArr [JObj [(''id'', JStr ''n_a''), (''title'', JStr ''A'')],
                              JObj [(''id'', JStr ''n_b''), (''title'', JStr ''B'')]]))) = (Inr (JBool True), st1) \<and>
      fetchNotes st1 = (Inr (JArr ms), st1) \<and>
      ms = [JObj [(''id'', JStr ''n_b''), (''title'', JStr ''B'')]] \<and>
      (\<forall>n\<in>set ms. \<not> strict_eq (js_get n ''id'') (JStr ''n_a'')) \<and>
      deleteNote (JStr ''n_a'') st1 = (Inr (JBool True), st1))"
  using deleteNote_idempotent [of
      "Some (JSONText (JArr [JObj [(''id'', JStr ''n_a''), (''title'', JStr ''A'')],
                             JObj [(''id'', JStr ''n_b''), (''title'', JStr ''B'')]]))"
      "[JObj [(''id'', JStr ''n_a''), (''title'', JStr ''A'')],
        JObj [(''id'', JStr ''n_b''), (''title'', JStr ''B'')]]" "JStr ''n_a''"]
  by (simp add: lsReadAll_def lookup_def strict_eq_def)

section \<open>Updating a note\<close>

text \<open>
  C7. In local fallback mode, on a store that holds a collection with no \<^verbatim>\<open>null\<close>
  element and no element whose id is \<^verbatim>\<open>id\<close>, \<^verbatim>\<open>updateNote(id, patch)\<close> rejects with
  \<^verbatim>\<open>Error('Note not found')\<close> and \<^verbatim>\<open>lsWriteAll\<close> is not called: storage is as the
  read left it, which is as it was unless it held a string that does not parse (the read
  removes that), and the collection read from it afterwards is the same.
\<close>

theorem updateNote_unknown_id:
  assumes "fst (lsReadAll st) = JArr ns"
    and "\<forall>n\<in>set ns. n \<noteq> JNull \<and> n \<noteq> JUndefined \<and> \<not> strict_eq (js_get n ''id'') i"
  shows "\<exists>st'. updateNote now i patch st = (Inl NoteNotFound, st') \<and>
           st' = snd (lsReadAll st) \<and>
           (st \<noteq> Some NotJSON \<longrightarrow> st' = st) \<and>
           fetchNotes st' = (Inr (JArr ns), st')"
proof -
  have "findIndex_by_id i ns = Inr (- 1)" using assms(2) by (rule findIndex_absent)
  with assms(1) have u: "updateNote now i patch st = (Inl NoteNotFound, snd (lsReadAll st))"
    by (cases "lsReadAll st") (simp add: updateNote_def)
  have k: "st \<noteq> Some NotJSON \<longrightarrow> snd (lsReadAll st) = st"
    by (auto simp: lsReadAll_def split: option.splits raw.splits)
  have "lsReadAll (snd (lsReadAll st)) = (JArr ns, snd (lsReadAll st))"
    using assms(1) by (rule lsReadAll_again)
  then have "fetchNotes (snd (lsReadAll st)) = (Inr (JArr ns), snd (lsReadAll st))"
    by (simp add: fetchNotes_def)
  with u k show ?thesis by simp
qed

theorem updateNote_unknown_id_witness:
  "(\<exists>st'. updateNote ''2024-05-01T10:00:00.000Z'' (JStr ''n_zzz'') (JObj [(''title'', JStr ''X'')])
       (Some (JSONText (JArr [JObj [(''id'', JStr ''n_a''), (''title'', JStr ''A'')]]))) = (Inl NoteNotFound, st') \<and>
      st' = Some (JSONText (JArr [JObj [(''id'', JStr ''n_a''), (''title'', JStr ''A'')]])) \<and>
      fetchNotes st' = (Inr (JArr [JObj [(''id'', JStr ''n_a''), (''title'', JStr ''A'')]]), st'))"
  using updateNote_unknown_id [of
      "Some (JSONText (JArr [JObj [(''id'', JStr ''n_a''), (''title'', JStr ''A'')]]))"
      "[JObj [(''id'', JStr ''n_a''), (''title'', JStr ''A'')]]" "JStr ''n_zzz''"
      "''2024-05-01T10:00:00.000Z''" "JObj [(''title'', JStr ''X'')]"]
  by (simp add: lsReadAll_def lookup_def strict_eq_def)

section \<open>Merging a patch into a note\<close>

lemma js_get_own_entries: "is_object v \<Longrightarrow> lookup (own_entries v) k = js_get v k"
  by (cases v) simp_all

lemma js_get_merged:
  "js_get (merged now old patch) k =
     (if k = ''updatedAt'' then JStr now
      else if k \<in> fst ` set (own_entries patch) then lookup (own_entries patch) k
      else lookup (own_entries old) k)"
  by (simp add: merged_def lookup_define_prop lookup_spread lookup_in_keys)

lemma define_prop_all:
  "P (snd kv) \<Longrightarrow> \<forall>e\<in>set kvs. P (snd e) \<Longrightarrow> \<forall>e\<in>set (define_prop kv kvs). P (snd e)"
  by (auto simp: define_prop_def)

lemma spread_all:
  "\<forall>e\<in>set es. P (snd e) \<Longrightarrow> \<forall>e\<in>set acc. P (snd e) \<Longrightarrow> \<forall>e\<in>set (spread es acc). P (snd e)"
  unfolding spread_def
proof (induction es arbitrary: acc)
  case Nil
  then show ?case by simp
next
  case (Cons e es)
  from Cons.prems have "\<forall>x\<in>set (define_prop e acc). P (snd x)"
    by (intro define_prop_all) simp_all
  with Cons.prems have "\<forall>x\<in>set (fold define_prop es (define_prop e acc)). P (snd x)"
    by (intro Cons.IH) simp_all
  then show ?case by simp
qed

lemma own_entries_json: "is_json v \<Longrightarrow> \<forall>kv\<in>set (own_entries v). is_json (snd kv)"
proof (cases v)
  case (JArr xs)
  assume "is_json v"
  with JArr show ?thesis by (auto dest!: set_zip_rightD)
next
  case (JStr s)
  then show ?thesis by (auto dest!: set_zip_rightD)
next
  case (JObj kvs)
  assume "is_json v"
  with JObj show ?thesis by simp
qed simp_all

lemma merged_json:
  assumes "is_json old" and "is_json patch"
  shows "is_json (merged now old patch)"
proof -
  have a: "\<forall>e\<in>set (spread (own_entries old) []). is_json (snd e)"
    using own_entries_json [OF assms(1)] by (intro spread_all) simp_all
  have b: "\<forall>e\<in>set (spread (own_entries patch) (spread (own_entries old) [])). is_json (snd e)"
    using own_entries_json [OF assms(2)] a by (rule spread_all)
  have "\<forall>e\<in>set (define_prop (''updatedAt'', JStr now)
                    (spread (own_entries patch) (spread (own_entries old) []))). is_json (snd e)"
    using b by (intro define_prop_all) simp_all
  then show ?thesis unfolding merged_def by (simp only: is_json_JObj)
qed

text \<open>
  C6, as amended. In local fallback mode, on a store that holds a collection of JSON
  objects one of which has the id \<^verbatim>\<open>id\<close>, \<^verbatim>\<open>updateNote(id, patch)\<close> with a JSON patch
  replaces the first such note and leaves the others as they were; the note it stores is
  the note it returns. In that note \<^verbatim>\<open>updatedAt\<close> is the current time; every other field
  that the patch names has the patch's value; every field that the patch does not name,
  the id among them, is as it was.
\<close>

theorem updateNote_merges:
  assumes "fst (lsReadAll st) = JArr ns" and "\<forall>n\<in>set ns. is_json n \<and> is_object n"
    and "is_json patch" and "\<exists>n\<in>set ns. strict_eq (js_get n ''id'') i"
  shows "\<exists>idx updated st'.
           updateNote now i patch st = (Inr updated, st') \<and>
           idx < length ns \<and> strict_eq (js_get (ns ! idx) ''id'') i \<and>
           (\<forall>j<idx. \<not> strict_eq (js_get (ns ! j) ''id'') i) \<and>
           fetchNotes st' = (Inr (JArr (ns[idx := updated])), st') \<and>
           (\<forall>k. js_get updated k =
                  (if k = ''updatedAt'' then JStr now
                   else if k \<in> fst ` set (own_entries patch) then lookup (own_entries patch) k
                   else js_get (ns ! idx) k))"
proof -
  from assms(2) have ok: "\<forall>n\<in>set ns. n \<noteq> JNull \<and> n \<noteq> JUndefined" by auto
  from findIndex_present [OF ok assms(4)] obtain idx where
    idx: "findIndex_by_id i ns = Inr (int idx)" "idx < length ns"
      "strict_eq (js_get (ns ! idx) ''id'') i" "\<forall>j<idx. \<not> strict_eq (js_get (ns ! j) ''id'') i"
    by blast
  let ?u = "merged now (ns ! idx) patch"
  let ?st = "lsWriteAll (JArr (ns[idx := ?u])) (snd (lsReadAll st))"
  have u: "updateNote now i patch st = (Inr ?u, ?st)"
    using assms(1) idx(1) by (cases "lsReadAll st") (simp add: updateNote_def Let_def)
  have old: "is_json (ns ! idx)" "is_object (ns ! idx)"
    using assms(2) idx(2) by simp_all
  have "is_json ?u" using old(1) assms(3) by (rule merged_json)
  with assms(2) have "\<forall>n\<in>set (ns[idx := ?u]). is_json n"
    by (auto dest: set_update_subset_insert [THEN subsetD])
  then have "lsReadAll ?st = (JArr (ns[idx := ?u]), ?st)" by (rule lsReadAll_written)
  then have f: "fetchNotes ?st = (Inr (JArr (ns[idx := ?u])), ?st)" by (simp add: fetchNotes_def)
  have g: "\<forall>k. js_get ?u k =
                  (if k = ''updatedAt'' then JStr now
                   else if k \<in> fst ` set (own_entries patch) then lookup (own_entries patch) k
                   else js_get (ns ! idx) k)"
    using old(2) by (simp add: js_get_merged js_get_own_entries)
  show ?thesis
    using u idx(2,3,4) f g by blast
qed

theorem updateNote_merges_witness:
  "(\<exists>idx updated st'.
      updateNote ''2024-05-02T08:30:00.000Z'' (JStr ''n_a'') (JObj [(''title'', JStr ''X'')])
        (Some (JSONText (JArr [JObj [(''id'', JStr ''n_a''), (''title'', JStr ''A''), (''content'', JStr ''Y''),
                                     (''updatedAt'', JStr ''2024-05-01T10:00:00.000Z'')]]))) = (Inr updated, st') \<and>
      idx < length [JObj [(''id'', JStr ''n_a''), (''title'', JStr ''A''), (''content'', JStr ''Y''),
                          (''updatedAt'', JStr ''2024-05-01T10:00:00.000Z'')]] \<and>
      fetchNotes st' = (Inr (JArr [updated]), st') \<and>
      js_get updated ''title'' = JStr ''X'' \<and> js_get updated ''content'' = JStr ''Y'' \<and>
      js_get updated ''id'' = JStr ''n_a'' \<and>
      js_get updated ''updatedAt'' = JStr ''2024-05-02T08:30:00.000Z'')"
proof -
  let ?old = "JObj [(''id'', JStr ''n_a''), (''title'', JStr ''A''), (''content'', JStr ''Y''),
                    (''updatedAt'', JStr ''2024-05-01T10:00:00.000Z'')]"
  let ?st = "Some (JSONText (JArr [?old]))"
  have h1: "fst (lsReadAll ?st) = JArr [?old]" by (simp add: lsReadAll_def)
  have h2: "\<forall>n\<in>set [?old]. is_json n \<and> is_object n" by simp
  have h3: "is_json (JObj [(''title'', JStr ''X'')])" by simp
  have h4: "\<exists>n\<in>set [?old]. strict_eq (js_get n ''id'') (JStr ''n_a'')"
    by (simp add: lookup_def strict_eq_def)
  from updateNote_merges [OF h1 h2 h3 h4, of "''2024-05-02T08:30:00.000Z''"]
  obtain idx updated st' where
    r: "updateNote ''2024-05-02T08:30:00.000Z'' (JStr ''n_a'') (JObj [(''title'', JStr ''X'')]) ?st = (Inr updated, st')"
       "idx < length [?old]"
       "fetchNotes st' = (Inr (JArr ([?old][idx := updated])), st')"
       "\<forall>k. js_get updated k =
                  (if k = ''updatedAt'' then JStr ''2024-05-02T08:30:00.000Z''
                   else if k \<in> fst ` set (own_entries (JObj [(''title'', JStr ''X'')]))
                        then lookup (own_entries (JObj [(''title'', JStr ''X'')])) k
                   else js_get ([?old] ! idx) k)"
    by blast
  from r(2) have i0: "idx = 0" by simp
  have "js_get updated ''title'' = JStr ''X''" "js_get updated ''content'' = JStr ''Y''"
    "js_get updated ''id'' = JStr ''n_a''" "js_get updated ''updatedAt'' = JStr ''2024-05-02T08:30:00.000Z''"
    using r(4) i0 by (simp_all add: lookup_def)
  with r(1,2,3) i0 show ?thesis by auto
qed

text \<open>
  C6 as stated fails: a note created and then updated while the clock reads the same
  millisecond has the same \<^verbatim>\<open>updatedAt\<close> after the update as before it, not a later
  one.
\<close>

theorem updateNote_same_clock:
  "fst (fetchNote (JStr ''n_k3x9q2ab'')
     (snd (createNote ''2024-05-01T10:00:00.000Z'' ''k3x9q2ab''
             (JObj [(''title'', JStr ''A''), (''content'', JStr ''Y'')]) None))) =
     Inr (JObj [(''id'', JStr ''n_k3x9q2ab''), (''title'', JStr ''A''), (''content'', JStr ''Y''),
                (''updatedAt'', JStr ''2024-05-01T10:00:00.000Z'')]) \<and>
   updateNote ''2024-05-01T10:00:00.000Z'' (JStr ''n_k3x9q2ab'') (JObj [(''title'', JStr ''X'')])
     (snd (createNote ''2024-05-01T10:00:00.000Z'' ''k3x9q2ab''
             (JObj [(''title'', JStr ''A''), (''content'', JStr ''Y'')]) None)) =
     (Inr (JObj [(''id'', JStr ''n_k3x9q2ab''), (''title'', JStr ''X''), (''content'', JStr ''Y''),
                 (''updatedAt'', JStr ''2024-05-01T10:00:00.000Z'')]),
      Some (JSONText (JArr [JObj [(''id'', JStr ''n_k3x9q2ab''), (''title'', JStr ''X''),
                                  (''content'', JStr ''Y''),
                                  (''updatedAt'', JStr ''2024-05-01T10:00:00.000Z'')]])))"
  by (simp add: updateNote_def createNote_def fetchNote_def lsReadAll_def lsWriteAll_def
        JSON_stringify_def newNote_of_def js_or_def lookup_def strict_eq_def Let_def merged_def
        spread_def define_prop_def)

section \<open>Reads bypass the Normalizer\<close>

lemma js_or_object: "is_object n \<Longrightarrow> js_or n b = n"
  by (cases n) (simp_all add: js_or_def)

text \<open>
  C10. In local fallback mode, when storage holds an array of objects, \<^verbatim>\<open>fetchNotes\<close>
  returns that array as it is, and \<^verbatim>\<open>fetchNote\<close> returns the first element whose id is
  the one asked for, as it is, or \<^verbatim>\<open>null\<close>: no element passes through \<^verbatim>\<open>normalize\<close>,
  so an element stored without title, content or \<^verbatim>\<open>updatedAt\<close> reaches the caller
  without them.
\<close>

theorem local_reads_return_stored:
  assumes "\<forall>n\<in>set ns. is_object n"
  shows "fetchNotes (Some (JSONText (JArr ns))) = (Inr (JArr ns), Some (JSONText (JArr ns))) \<and>
         fetchNote i (Some (JSONText (JArr ns))) =
           (Inr (case List.find (\<lambda>n. strict_eq (js_get n ''id'') i) ns of
                   None \<Rightarrow> JNull
                 | Some n \<Rightarrow> n),
            Some (JSONText (JArr ns)))"
proof -
  from assms have ok: "\<forall>n\<in>set ns. n \<noteq> JNull \<and> n \<noteq> JUndefined" by auto
  have "js_or (case List.find (\<lambda>n. strict_eq (js_get n ''id'') i) ns of None \<Rightarrow> JUndefined | Some n \<Rightarrow> n) JNull
        = (case List.find (\<lambda>n. strict_eq (js_get n ''id'') i) ns of None \<Rightarrow> JNull | Some n \<Rightarrow> n)"
  proof (cases "List.find (\<lambda>n. strict_eq (js_get n ''id'') i) ns")
    case None
    then show ?thesis by (simp add: js_or_def)
  next
    case (Some n)
    then have "n \<in> set ns" by (auto simp: find_Some_iff)
    with assms have "is_object n" by simp
    with Some show ?thesis by (simp add: js_or_object)
  qed
  then show ?thesis
    by (simp add: fetchNotes_def fetchNote_def lsReadAll_def find_by_id_eq [OF ok])
qed

theorem local_reads_return_stored_witness:
  "is_object (JObj [(''id'', JStr ''n_a'')]) \<and>
   fetchNotes (Some (JSONText (JArr [JObj [(''id'', JStr ''n_a'')]]))) =
     (Inr (JArr [JObj [(''id'', JStr ''n_a'')]]), Some (JSONText (JArr [JObj [(''id'', JStr ''n_a'')]]))) \<and>
   fetchNote (JStr ''n_a'') (Some (JSONText (JArr [JObj [(''id'', JStr ''n_a'')]]))) =
     (Inr (JObj [(''id'', JStr ''n_a'')]), Some (JSONText (JArr [JObj [(''id'', JStr ''n_a'')]]))) \<and>
   js_get (JObj [(''id'', JStr ''n_a'')]) ''title'' = JUndefined \<and>
   normalize (\<lambda>v. None) ''2024-05-01T10:00:00.000Z'' (JObj [(''id'', JStr ''n_a'')]) =
     Inr (JObj [(''id'', JStr ''n_a''), (''title'', JStr ''''), (''content'', JStr ''''),
                (''updatedAt'', JStr ''2024-05-01T10:00:00.000Z'')])"
  using local_reads_return_stored [of "[JObj [(''id'', JStr ''n_a'')]]" "JStr ''n_a''"]
  by (simp add: lookup_def strict_eq_def normalize_def js_or_def)

section \<open>The ids of a sequence of creations\<close>

lemma create_all_collection:
  assumes "fst (lsReadAll st) = JArr ns" and "\<forall>n\<in>set ns. is_json n"
    and "\<forall>c\<in>set cs. is_json (snd (snd c)) \<and> snd (snd c) \<noteq> JNull"
  shows "\<exists>rs st'. create_all cs st = (Inr rs, st') \<and>
           fst (fetchNotes st') = Inr (JArr (rev rs @ ns)) \<and>
           note_ids rs = map chosen_id cs"
  using assms
proof (induction cs arbitrary: st ns)
  case Nil
  then show ?case by (cases "lsReadAll st") (simp add: fetchNotes_def note_ids_def)
next
  case (Cons c cs)
  let ?n = "newNote_of (fst c) (fst (snd c)) (snd (snd c))"
  let ?st1 = "lsWriteAll (JArr (?n # ns)) (snd (lsReadAll st))"
  from Cons.prems(3) have arg: "is_json (snd (snd c))" "snd (snd c) \<noteq> JNull"
    "snd (snd c) \<noteq> JUndefined" by auto
  have c1: "createNote (fst c) (fst (snd c)) (snd (snd c)) st = (Inr ?n, ?st1)"
    using Cons.prems(1) arg(2,3) by (rule createNote_eq)
  have j: "\<forall>m\<in>set (?n # ns). is_json m"
    using Cons.prems(2) arg(1) by (simp add: newNote_json)
  then have "lsReadAll ?st1 = (JArr (?n # ns), ?st1)" by (rule lsReadAll_written)
  then have r: "fst (lsReadAll ?st1) = JArr (?n # ns)" by simp
  from Cons.prems(3) have rest: "\<forall>c\<in>set cs. is_json (snd (snd c)) \<and> snd (snd c) \<noteq> JNull"
    by simp
  from Cons.IH [OF r j rest] obtain rs st' where
    ih: "create_all cs ?st1 = (Inr rs, st')"
        "fst (fetchNotes st') = Inr (JArr (rev rs @ ?n # ns))"
        "note_ids rs = map chosen_id cs"
    by blast
  have "create_all (c # cs) st = (Inr (?n # rs), st')"
    using c1 ih(1) by simp
  moreover have "fst (fetchNotes st') = Inr (JArr (rev (?n # rs) @ ns))"
    using ih(2) by simp
  moreover have "note_ids (?n # rs) = map chosen_id (c # cs)"
    using ih(3) by (simp add: note_ids_def chosen_id_def js_get_newNote)
  ultimately show ?case by blast
qed

text \<open>
  C2, as amended. A sequence of \<^verbatim>\<open>createNote\<close> calls in local fallback mode, each with a
  JSON argument other than \<^verbatim>\<open>null\<close>, on a store that holds a collection of JSON values,
  leaves the new notes in front of the old ones, newest first, and the id of each new note
  is the one its call chose: the \<^verbatim>\<open>id\<close> of the argument when that is truthy, else
  \<^verbatim>\<open>'n_'\<close> followed by the random token. So the ids in the collection are pairwise
  distinct exactly when the chosen ids are pairwise distinct, the ids already stored are
  pairwise distinct, and no chosen id is already stored. The code compares no ids.
\<close>

theorem create_all_ids:
  assumes "fst (lsReadAll st) = JArr ns" and "\<forall>n\<in>set ns. is_json n"
    and "\<forall>c\<in>set cs. is_json (snd (snd c)) \<and> snd (snd c) \<noteq> JNull"
  shows "\<exists>rs st' ms. create_all cs st = (Inr rs, st') \<and>
           fst (fetchNotes st') = Inr (JArr ms) \<and>
           ms = rev rs @ ns \<and>
           note_ids ms = rev (map chosen_id cs) @ note_ids ns \<and>
           (distinct (note_ids ms) \<longleftrightarrow>
              distinct (map chosen_id cs) \<and> distinct (note_ids ns) \<and>
              set (map chosen_id cs) \<inter> set (note_ids ns) = {})"
proof -
  from create_all_collection [OF assms] obtain rs st' where
    r: "create_all cs st = (Inr rs, st')" "fst (fetchNotes st') = Inr (JArr (rev rs @ ns))"
       "note_ids rs = map chosen_id cs"
    by blast
  have "note_ids (rev rs @ ns) = rev (note_ids rs) @ note_ids ns"
    by (simp add: note_ids_def rev_map)
  with r(3) have ids: "note_ids (rev rs @ ns) = rev (map chosen_id cs) @ note_ids ns"
    by simp
  have "distinct (rev (map chosen_id cs) @ note_ids ns) \<longleftrightarrow>
          distinct (map chosen_id cs) \<and> distinct (note_ids ns) \<and>
          set (map chosen_id cs) \<inter> set (note_ids ns) = {}"
    by (simp only: distinct_append distinct_rev set_rev)
  with r(1,2) ids show ?thesis by simp
qed

theorem create_all_ids_witness:
  "(\<exists>rs st' ms.
      create_all [(''2024-05-01T10:00:00.000Z'', ''k3x9q2ab'', JObj [(''title'', JStr ''A'')]),
                  (''2024-05-01T10:00:05.000Z'', ''7hd02mzp'', JObj [(''title'', JStr ''B'')])] None
        = (Inr rs, st') \<and>
      fst (fetchNotes st') = Inr (JArr ms) \<and> ms = rev rs \<and>
      note_ids ms = [JStr ''n_7hd02mzp'', JStr ''n_k3x9q2ab''] \<and>
      distinct (note_ids ms))"
  using create_all_ids [of None "[]"
      "[(''2024-05-01T10:00:00.000Z'', ''k3x9q2ab'', JObj [(''title'', JStr ''A'')]),
        (''2024-05-01T10:00:05.000Z'', ''7hd02mzp'', JObj [(''title'', JStr ''B'')])]"]
  by (simp add: lsReadAll_def note_ids_def chosen_id_def newNote_of_def lookup_def js_or_def)

text \<open>
  C2 as stated fails: two calls that pass the same \<^verbatim>\<open>id\<close>, and two calls that pass none
  and draw the same token, both leave two notes with one id.
\<close>

theorem create_all_duplicate_ids:
  "create_all [(''2024-05-01T10:00:00.000Z'', ''k3x9q2ab'', JObj [(''id'', JStr ''a''), (''title'', JStr ''A'')]),
               (''2024-05-01T10:00:05.000Z'', ''7hd02mzp'', JObj [(''id'', JStr ''a''), (''title'', JStr ''B'')])] None =
     (Inr [JObj [(''id'', JStr ''a''), (''title'', JStr ''A''), (''content'', JStr ''''),
                 (''updatedAt'', JStr ''2024-05-01T10:00:00.000Z'')],
           JObj [(''id'', JStr ''a''), (''title'', JStr ''B''), (''content'', JStr ''''),
                 (''updatedAt'', JStr ''2024-05-01T10:00:05.000Z'')]],
      Some (JSONText (JArr
          [JObj [(''id'', JStr ''a''), (''title'', JStr ''B''), (''content'', JStr ''''),
                 (''updatedAt'', JStr ''2024-05-01T10:00:05.000Z'')],
           JObj [(''id'', JStr ''a''), (''title'', JStr ''A''), (''content'', JStr ''''),
                 (''updatedAt'', JStr ''2024-05-01T10:00:00.000Z'')]]))) \<and>
   \<not> distinct (note_ids
          [JObj [(''id'', JStr ''a''), (''title'', JStr ''B''), (''content'', JStr ''''),
                 (''updatedAt'', JStr ''2024-05-01T10:00:05.000Z'')],
           JObj [(''id'', JStr ''a''), (''title'', JStr ''A''), (''content'', JStr ''''),
                 (''updatedAt'', JStr ''2024-05-01T10:00:00.000Z'')]]) \<and>
   snd (create_all [(''2024-05-01T10:00:00.000Z'', ''k3x9q2ab'', JObj [(''title'', JStr ''A'')]),
                    (''2024-05-01T10:00:05.000Z'', ''k3x9q2ab'', JObj [(''title'', JStr ''B'')])] None) =
     Some (JSONText (JArr
          [JObj [(''id'', JStr ''n_k3x9q2ab''), (''title'', JStr ''B''), (''content'', JStr ''''),
                 (''updatedAt'', JStr ''2024-05-01T10:00:05.000Z'')],
           JObj [(''id'', JStr ''n_k3x9q2ab''), (''title'', JStr ''A''), (''content'', JStr ''''),
                 (''updatedAt'', JStr ''2024-05-01T10:00:00.000Z'')]]))"
  by (simp add: createNote_def lsReadAll_def lsWriteAll_def JSON_stringify_def
        newNote_of_def js_or_def lookup_def Let_def note_ids_def)

section \<open>What the Normalizer returns\<close>

text \<open>
  When \<^verbatim>\<open>updatedAt\<close> is truthy and \<^verbatim>\<open>Date\<close> cannot read it, \<^verbatim>\<open>toISOString\<close>
  throws and so does \<^verbatim>\<open>normalize\<close>.
\<close>

lemma normalize_invalid_date:
  assumes "note \<noteq> JNull" and "note \<noteq> JUndefined"
    and "truthy (js_get note ''updatedAt'')" and "dateISO (js_get note ''updatedAt'') = None"
  shows "normalize dateISO now note = Inl RangeError"
  using assms by (simp add: normalize_def get_prop_ok Let_def)

text \<open>
  C3, as amended. For every input other than \<^verbatim>\<open>null\<close> and \<^verbatim>\<open>undefined\<close> whose
  \<^verbatim>\<open>updatedAt\<close> is falsy or a valid date, \<^verbatim>\<open>normalize\<close> returns. The id of the output
  is the id of the input; its title is the input's title when that is truthy and the empty
  string otherwise, and so is a string whenever the input's title is a string or falsy; the
  same holds of the content; its \<^verbatim>\<open>updatedAt\<close> is a string, the ISO form of the date
  read from the input's \<^verbatim>\<open>updatedAt\<close> when that is truthy and the current time otherwise.
\<close>

theorem normalize_shape:
  assumes "note \<noteq> JNull" and "note \<noteq> JUndefined"
    and "\<not> truthy (js_get note ''updatedAt'') \<or> dateISO (js_get note ''updatedAt'') \<noteq> None"
  shows "\<exists>out. normalize dateISO now note = Inr out \<and>
           js_get out ''id'' = js_get note ''id'' \<and>
           js_get out ''title'' = js_or (js_get note ''title'') (JStr '''') \<and>
           (is_string (js_get note ''title'') \<or> \<not> truthy (js_get note ''title'') \<longrightarrow>
              is_string (js_get out ''title'')) \<and>
           js_get out ''content'' = js_or (js_get note ''content'') (JStr '''') \<and>
           (is_string (js_get note ''content'') \<or> \<not> truthy (js_get note ''content'') \<longrightarrow>
              is_string (js_get out ''content'')) \<and>
           is_string (js_get out ''updatedAt'') \<and>
           (truthy (js_get note ''updatedAt'') \<longrightarrow>
              (\<exists>s. dateISO (js_get note ''updatedAt'') = Some s \<and> js_get out ''updatedAt'' = JStr s)) \<and>
           (\<not> truthy (js_get note ''updatedAt'') \<longrightarrow> js_get out ''updatedAt'' = JStr now)"
proof -
  have g: "get_prop note ''id'' = Inr (js_get note ''id'')"
    using assms(1,2) by (rule get_prop_ok)
  show ?thesis
  proof (cases "truthy (js_get note ''updatedAt'')")
    case False
    then show ?thesis
      by (simp add: normalize_def g Let_def lookup_def js_or_def)
  next
    case True
    with assms(3) obtain s where "dateISO (js_get note ''updatedAt'') = Some s" by auto
    with True show ?thesis
      by (simp add: normalize_def g Let_def lookup_def js_or_def)
  qed
qed

theorem normalize_shape_witness:
  "(\<exists>out. normalize (\<lambda>v. if v = JStr ''2024-05-01'' then Some ''2024-05-01T00:00:00.000Z'' else None)
             ''2024-06-01T12:00:00.000Z''
             (JObj [(''id'', JNum 7), (''title'', JStr ''A''), (''updatedAt'', JStr ''2024-05-01'')]) = Inr out \<and>
      js_get out ''id'' = JNum 7 \<and> js_get out ''title'' = JStr ''A'' \<and>
      is_string (js_get out ''title'') \<and>
      js_get out ''content'' = JStr '''' \<and>
      js_get out ''updatedAt'' = JStr ''2024-05-01T00:00:00.000Z'')"
  using normalize_shape [of "JObj [(''id'', JNum 7), (''title'', JStr ''A''), (''updatedAt'', JStr ''2024-05-01'')]"
      "\<lambda>v. if v = JStr ''2024-05-01'' then Some ''2024-05-01T00:00:00.000Z'' else None"
      "''2024-06-01T12:00:00.000Z''"]
  by (auto simp: lookup_def js_or_def)

text \<open>
  C3 as stated fails: a truthy title that is not a string is passed through, so the
  output's title is not a string. (Here \<^verbatim>\<open>updatedAt\<close> is absent, so \<^verbatim>\<open>Date\<close> is given
  nothing to read.)
\<close>

theorem normalize_number_title:
  "normalize (\<lambda>v. None) ''2024-06-01T12:00:00.000Z'' (JObj [(''id'', JStr ''a''), (''title'', JNum 5)]) =
     Inr (JObj [(''id'', JStr ''a''), (''title'', JNum 5), (''content'', JStr ''''),
                (''updatedAt'', JStr ''2024-06-01T12:00:00.000Z'')]) \<and>
   \<not> is_string (JNum 5)"
  by (simp add: normalize_def lookup_def js_or_def)

section \<open>The stored collection stays a list of notes\<close>

text \<open>
  The hypotheses on storage made above hold of every state the operations can reach from
  an empty local storage: each operation, whatever its arguments and whether it resolves
  or rejects, leaves an array of JSON objects.
\<close>

lemma note_store_empty: "note_store None"
  by (simp add: note_store_def lsReadAll_def)

lemma note_storeD:
  "note_store st \<Longrightarrow> \<exists>ns. fst (lsReadAll st) = JArr ns \<and> (\<forall>n\<in>set ns. is_object n \<and> is_json n)"
  by (cases "fst (lsReadAll st)") (simp_all add: note_store_def list_all_iff)

lemma note_store_read: "note_store st \<Longrightarrow> note_store (snd (lsReadAll st))"
  by (auto simp: note_store_def lsReadAll_def split: option.splits raw.splits)

lemma json_roundtrip_object: "is_object n \<Longrightarrow> is_object (json_roundtrip n)"
  by (cases n) simp_all

lemma note_store_written:
  assumes "\<forall>n\<in>set ns. is_object n"
  shows "note_store (lsWriteAll (JArr ns) st)"
proof -
  have e: "json_roundtrip n \<noteq> JUndefined \<and> is_object (json_roundtrip n) \<and> is_json (json_roundtrip n)"
    if "n \<in> set ns" for n
  proof -
    from that assms have o: "is_object n" by simp
    then have u: "n \<noteq> JUndefined" by auto
    then have "is_json (json_roundtrip n)" by (rule is_json_roundtrip)
    moreover have "is_object (json_roundtrip n)" using o by (rule json_roundtrip_object)
    ultimately show ?thesis using u by (simp add: json_roundtrip_undef)
  qed
  then have "map (\<lambda>v. if v = JUndefined then JNull else v) (map json_roundtrip ns) = map json_roundtrip ns"
    by simp
  then have "lsReadAll (lsWriteAll (JArr ns) st) =
               (JArr (map json_roundtrip ns), lsWriteAll (JArr ns) st)"
    by (simp add: lsReadAll_def lsWriteAll_def JSON_stringify_def)
  moreover have "list_all (\<lambda>n. is_object n \<and> is_json n) (map json_roundtrip ns)"
    using e by (simp add: list_all_iff)
  ultimately show ?thesis by (simp add: note_store_def)
qed

lemma note_store_fetchNotes: "note_store st \<Longrightarrow> note_store (snd (fetchNotes st))"
  by (cases "lsReadAll st") (auto simp: fetchNotes_def dest: note_store_read)

lemma note_store_fetchNote: "note_store st \<Longrightarrow> note_store (snd (fetchNote i st))"
  using note_store_read [of st]
  by (cases "lsReadAll st") (auto simp: fetchNote_def split: jsval.splits sum.splits)

lemma note_store_createNote:
  assumes "note_store st"
  shows "note_store (snd (createNote now token note st))"
proof -
  from note_storeD [OF assms] obtain ns where
    ns: "fst (lsReadAll st) = JArr ns" "\<forall>n\<in>set ns. is_object n \<and> is_json n" by blast
  have r: "note_store (snd (lsReadAll st))" using assms by (rule note_store_read)
  have w: "note_store (lsWriteAll (JArr (newNote_of now token note # ns)) (snd (lsReadAll st)))"
    using ns(2) by (intro note_store_written) (simp add: newNote_of_def)
  show ?thesis
    using ns(1) r w
    by (cases "lsReadAll st") (auto simp: createNote_def Let_def split: sum.splits)
qed

lemma note_store_updateNote:
  assumes "note_store st"
  shows "note_store (snd (updateNote now i patch st))"
proof -
  from note_storeD [OF assms] obtain ns where
    ns: "fst (lsReadAll st) = JArr ns" "\<forall>n\<in>set ns. is_object n \<and> is_json n" by blast
  have r: "note_store (snd (lsReadAll st))" using assms by (rule note_store_read)
  have w: "note_store (lsWriteAll (JArr (ns[k := merged now (ns ! k) patch])) (snd (lsReadAll st)))" for k
  proof (rule note_store_written)
    show "\<forall>n\<in>set (ns[k := merged now (ns ! k) patch]). is_object n"
      using ns(2) by (auto simp: merged_def dest!: set_update_subset_insert [THEN subsetD])
  qed
  show ?thesis
    using ns(1) r w
    by (cases "lsReadAll st") (auto simp: updateNote_def Let_def split: sum.splits)
qed

lemma note_store_deleteNote:
  assumes "note_store st"
  shows "note_store (snd (deleteNote i st))"
proof -
  from note_storeD [OF assms] obtain ns where
    ns: "fst (lsReadAll st) = JArr ns" "\<forall>n\<in>set ns. is_object n \<and> is_json n" by blast
  then have "\<forall>n\<in>set ns. n \<noteq> JNull \<and> n \<noteq> JUndefined" by auto
  with ns(1) have d: "deleteNote i st =
      (Inr (JBool True),
       lsWriteAll (JArr (filter (\<lambda>n. \<not> strict_eq (js_get n ''id'') i) ns)) (snd (lsReadAll st)))"
    by (rule deleteNote_eq)
  have "note_store (lsWriteAll (JArr (filter (\<lambda>n. \<not> strict_eq (js_get n ''id'') i) ns)) (snd (lsReadAll st)))"
    using ns(2) by (intro note_store_written) simp
  with d show ?thesis by simp
qed

section \<open>Debounced calls\<close>

text \<open>The closure starts with no timer, and no call or passage of time gives it two.\<close>

lemma one_timer_debounce: "one_timer (debounce w start)"
  by (simp add: one_timer_def debounce_def)

lemma wait_debounce: "wait (debounce w start) = (case w of None \<Rightarrow> 400 | Some n \<Rightarrow> n)"
  by (simp add: debounce_def)

lemma pending_debounced:
  "one_timer st \<Longrightarrow>
   pending (debounced args st) = [(next_id st, clock st + wait st, args)] \<and>
   t (debounced args st) = Some (next_id st) \<and>
   clock (debounced args st) = clock st \<and>
   fired (debounced args st) = fired st"
  by (auto simp: one_timer_def debounced_def clearTimeout_def Let_def split: list.splits)

lemma one_timer_clock: "one_timer (st\<lparr>clock := T\<rparr>) = one_timer st"
  by (simp add: one_timer_def split: list.splits)

lemma one_timer_debounced: "one_timer st \<Longrightarrow> one_timer (debounced args st)"
  using pending_debounced [of st args] by (simp add: one_timer_def)

lemma one_timer_run_due: "one_timer st \<Longrightarrow> one_timer (run_due st)"
  by (auto simp: one_timer_def run_due_def Let_def split: list.splits)

lemma one_timer_step: "one_timer st \<Longrightarrow> one_timer (step e st)"
  by (cases e) (simp_all add: one_timer_debounced one_timer_run_due one_timer_clock)

lemma wait_step: "wait (step e st) = wait st"
  by (cases e) (simp_all add: debounced_def run_due_def Let_def)

lemma clock_step: "clock (step e st) = event_time e"
  by (cases e) (simp_all add: debounced_def run_due_def Let_def)

lemma exec_Nil: "exec [] st = st"
  by (simp add: exec_def)

lemma exec_Cons: "exec (e # es) st = exec es (step e st)"
  by (simp add: exec_def)

lemma exec_append: "exec (xs @ ys) st = exec ys (exec xs st)"
  by (simp add: exec_def)

lemma exec_snoc: "exec (es @ [e]) st = step e (exec es st)"
  by (simp add: exec_def)

lemma one_timer_exec: "one_timer st \<Longrightarrow> one_timer (exec es st)"
  by (induction es arbitrary: st) (simp_all add: exec_Nil exec_Cons one_timer_step)

lemma wait_exec: "wait (exec es st) = wait st"
  by (induction es arbitrary: st) (simp_all add: exec_Nil exec_Cons wait_step)

text \<open>Timelines, taken from their last event.\<close>

lemma in_order_snoc:
  "in_order (clock st) (es @ [e]) \<Longrightarrow> in_order (clock st) es \<and> clock (exec es st) \<le> event_time e"
proof (induction es arbitrary: st)
  case Nil
  then show ?case by (simp add: exec_Nil)
next
  case (Cons x xs)
  from Cons.prems have a: "clock st \<le> event_time x" "in_order (clock (step x st)) (xs @ [e])"
    by (simp_all add: clock_step)
  from Cons.IH [OF a(2)] a(1) show ?case
    by (simp add: exec_Cons clock_step)
qed

lemma last_call_snoc:
  "last_call c (es @ [Call T args]) = (T, args)"
  "last_call c (es @ [Run T]) = last_call c es"
  by (induction c es rule: last_call.induct) simp_all

lemma fst_last_call: "fst (last_call (p, x) es) = fst (last_call (p, y) es)"
  by (induction es arbitrary: p x y rule: burst.induct [of _ 0]) simp_all

lemma burst_snoc:
  "burst w prev (es @ [Call T args]) \<longleftrightarrow> burst w prev es \<and> T < fst (last_call (prev, x) es) + w"
  "burst w prev (es @ [Run T]) \<longleftrightarrow> burst w prev es"
proof (induction w prev es arbitrary: x rule: burst.induct)
  case (1 w prev)
  {
    case 1
    then show ?case by simp
  next
    case 2
    then show ?case by simp
  }
next
  case (2 w prev T' args' es)
  {
    case 1
    from "2.IH"(1) [of args'] show ?case by auto
  next
    case 2
    from "2.IH"(2) show ?case by simp
  }
next
  case (3 w prev T' es)
  {
    case 1
    from "3.IH"(1) [of x] show ?case by simp
  next
    case 2
    from "3.IH"(2) show ?case by simp
  }
qed

lemma trailing_runs_snoc:
  "trailing_runs (es @ [Call T args]) = []"
  "trailing_runs (es @ [Run T]) = trailing_runs es @ [T]"
  by (simp_all add: trailing_runs_def)

lemma find_snoc:
  "List.find P (xs @ [y]) =
     (case List.find P xs of None \<Rightarrow> (if P y then Some y else None) | Some x \<Rightarrow> Some x)"
  by (induction xs) simp_all

lemma run_due_armed:
  assumes "pending st = [(h, d, a)]"
  shows "d \<le> clock st \<Longrightarrow> pending (run_due st) = [] \<and> fired (run_due st) = fired st @ [(clock st, a)]"
    and "\<not> d \<le> clock st \<Longrightarrow> pending (run_due st) = [(h, d, a)] \<and> fired (run_due st) = fired st"
    and "t (run_due st) = t st"
  using assms by (simp_all add: run_due_def Let_def)

lemma run_due_idle:
  "pending st = [] \<Longrightarrow> pending (run_due st) = [] \<and> fired (run_due st) = fired st"
  by (simp add: run_due_def Let_def)

text \<open>
  After a call, and through a burst that follows it: either the timer of the latest call is
  the one pending timer and \<^verbatim>\<open>fn\<close> has not been called, or the platform has run that
  timer, after the last call and no earlier than it was due, and nothing is pending.
\<close>

lemma burst_outcome:
  assumes "pending st = [(h, clock st + wait st, a)]" and "t st = Some h"
    and "in_order (clock st) es" and "burst (wait st) (clock st) es"
  shows "case List.find (\<lambda>T. fst (last_call (clock st, a) es) + wait st \<le> T) (trailing_runs es) of
           None \<Rightarrow>
             (\<exists>h'. pending (exec es st) =
                      [(h', fst (last_call (clock st, a) es) + wait st, snd (last_call (clock st, a) es))] \<and>
                    t (exec es st) = Some h') \<and>
             fired (exec es st) = fired st
         | Some T \<Rightarrow>
             pending (exec es st) = [] \<and>
             fired (exec es st) = fired st @ [(T, snd (last_call (clock st, a) es))] \<and>
             fst (last_call (clock st, a) es) + wait st \<le> clock (exec es st)"
  using assms(3,4)
proof (induction es rule: rev_induct)
  case Nil
  with assms(1,2) show ?case by (simp add: exec_Nil trailing_runs_def)
next
  case (snoc e es)
  let ?c = "last_call (clock st, a) es"
  let ?s = "exec es st"
  from in_order_snoc [OF snoc.prems(1)] have ord: "in_order (clock st) es" "clock ?s \<le> event_time e"
    by simp_all
  have w: "wait ?s = wait st" by (rule wait_exec)
  show ?case
  proof (cases e)
    case (Call T args)
    from snoc.prems(2) Call have b: "burst (wait st) (clock st) es" "T < fst ?c + wait st"
      using burst_snoc(1) [of "wait st" "clock st" es T args a] by simp_all
    from ord(2) Call have le: "clock ?s \<le> T" by simp
    from snoc.IH [OF ord(1) b(1)] b(2) le obtain h' where
      armed: "pending ?s = [(h', fst ?c + wait st, snd ?c)]" "t ?s = Some h'"
      and f: "fired ?s = fired st"
      by (auto split: option.splits)
    let ?s' = "?s\<lparr>clock := T\<rparr>"
    have "one_timer ?s'" using armed by (simp add: one_timer_def)
    from pending_debounced [OF this, of args] w f
    have "pending (debounced args ?s') = [(next_id ?s, T + wait st, args)]"
      "t (debounced args ?s') = Some (next_id ?s)" "fired (debounced args ?s') = fired st"
      by simp_all
    with Call show ?thesis
      by (simp add: exec_snoc last_call_snoc trailing_runs_snoc)
  next
    case (Run T)
    from snoc.prems(2) Run have b: "burst (wait st) (clock st) es"
      using burst_snoc(2) [of "wait st" "clock st" es T] by simp
    from ord(2) Run have le: "clock ?s \<le> T" by simp
    note ih = snoc.IH [OF ord(1) b]
    let ?s' = "?s\<lparr>clock := T\<rparr>"
    show ?thesis
    proof (cases "List.find (\<lambda>T. fst ?c + wait st \<le> T) (trailing_runs es)")
      case (Some T0)
      with ih have d: "pending ?s = []" "fired ?s = fired st @ [(T0, snd ?c)]"
        "fst ?c + wait st \<le> clock ?s" by simp_all
      from d(1) have "pending ?s' = []" by simp
      from run_due_idle [OF this] d(2)
      have "pending (run_due ?s') = []" "fired (run_due ?s') = fired st @ [(T0, snd ?c)]"
        by simp_all
      moreover have "clock (run_due ?s') = T" by (simp add: run_due_def Let_def)
      ultimately show ?thesis
        using Run Some d(3) le
        by (simp add: exec_snoc last_call_snoc trailing_runs_snoc find_snoc)
    next
      case None
      with ih obtain h' where
        armed: "pending ?s = [(h', fst ?c + wait st, snd ?c)]" "t ?s = Some h'"
        and f: "fired ?s = fired st"
        by auto
      from armed(1) have p: "pending ?s' = [(h', fst ?c + wait st, snd ?c)]" by simp
      have c: "clock ?s' = T" by simp
      have tt: "t (run_due ?s') = Some h'" using run_due_armed(3) [OF p] armed(2) by simp
      have cl: "clock (run_due ?s') = T" by (simp add: run_due_def Let_def)
      show ?thesis
      proof (cases "fst ?c + wait st \<le> T")
        case True
        with run_due_armed(1) [OF p] c f
        have "pending (run_due ?s') = []" "fired (run_due ?s') = fired st @ [(T, snd ?c)]"
          by simp_all
        with Run None True cl show ?thesis
          by (simp add: exec_snoc last_call_snoc trailing_runs_snoc find_snoc)
      next
        case False
        with run_due_armed(2) [OF p] c f
        have "pending (run_due ?s') = [(h', fst ?c + wait st, snd ?c)]" "fired (run_due ?s') = fired st"
          by simp_all
        with Run None False tt show ?thesis
          by (simp add: exec_snoc last_call_snoc trailing_runs_snoc find_snoc)
      qed
    qed
  qed
qed

text \<open>
  C5. Take the function that \<^verbatim>\<open>debounce(fn, wait)\<close> returns (the window is \<^verbatim>\<open>wait\<close>,
  400 ms when none is passed), anything that has happened to it before, and then a burst:
  a call followed by calls each less than the window after the call before it, with the
  platform running timers whenever it chooses. Through the burst \<^verbatim>\<open>fn\<close> is called at most
  once more than before it: once the platform runs timers at or after the window has
  elapsed from the last call, \<^verbatim>\<open>fn\<close> has been called exactly once, at that time, with
  the arguments of the last call, and no timer is pending; until then it has not been
  called and the one pending timer is the one of the last call. Whatever was pending when
  the burst began, due or not, is cancelled by its first call and never runs.
\<close>

theorem debounce_coalesces:
  assumes "W = (case w of None \<Rightarrow> 400 | Some n \<Rightarrow> n)" and "0 < W" and "W < 2 ^ 31"
    and "in_order t1 es" and "burst W t1 es" and "last_call (t1, a1) es = (tn, an)"
  shows "\<exists>h. fired (exec (pre @ Call t1 a1 # es) (debounce w start)) =
               fired (exec pre (debounce w start)) @
                 (case List.find (\<lambda>T. tn + W \<le> T) (trailing_runs es) of
                    None \<Rightarrow> []
                  | Some T \<Rightarrow> [(T, an)]) \<and>
             pending (exec (pre @ Call t1 a1 # es) (debounce w start)) =
                 (case List.find (\<lambda>T. tn + W \<le> T) (trailing_runs es) of
                    None \<Rightarrow> [(h, tn + W, an)]
                  | Some T \<Rightarrow> [])"
proof -
  let ?p = "exec pre (debounce w start)"
  let ?p' = "?p\<lparr>clock := t1\<rparr>"
  let ?s = "step (Call t1 a1) ?p"
  have wp: "wait ?p = W" using assms(1) by (simp add: wait_exec wait_debounce)
  have "one_timer ?p" by (intro one_timer_exec one_timer_debounce)
  then have "one_timer ?p'" by (simp add: one_timer_clock)
  from pending_debounced [OF this, of a1] wp have s:
    "pending ?s = [(next_id ?p, t1 + W, a1)]" "t ?s = Some (next_id ?p)" "clock ?s = t1"
    "fired ?s = fired ?p"
    by simp_all
  have ws: "wait ?s = W" using wp wait_step [of "Call t1 a1" ?p] by simp
  have e: "exec (pre @ Call t1 a1 # es) (debounce w start) = exec es ?s"
    by (simp add: exec_append exec_Cons)
  from s(1) s(3) ws have a: "pending ?s = [(next_id ?p, clock ?s + wait ?s, a1)]" by simp
  from assms(4) s(3) have o: "in_order (clock ?s) es" by simp
  from assms(5) s(3) ws have b: "burst (wait ?s) (clock ?s) es" by simp
  from burst_outcome [OF a s(2) o b] s(3,4) ws assms(6) show ?thesis
    unfolding e by (auto split: option.splits)
qed

theorem debounce_coalesces_witness:
  "fired (exec ([Call 20 ''x'', Run 100] @
                Call 1000 ''a'' # [Run 1100, Call 1300 ''ab'', Call 1650 ''abc'',
                                   Run 2000, Run 2060, Run 3000])
            (debounce None 10)) = [(2060, ''abc'')] \<and>
   pending (exec ([Call 20 ''x'', Run 100] @
                  Call 1000 ''a'' # [Run 1100, Call 1300 ''ab'', Call 1650 ''abc'',
                                     Run 2000, Run 2060, Run 3000])
              (debounce None 10)) = [] \<and>
   fired (exec ([Call 0 ''a''] @ Call 80 ''b'' # [Run 130]) (debounce (Some 50) 0)) = [(130, ''b'')]"
proof -
  let ?es = "[Run 1100, Call 1300 ''ab'', Call 1650 ''abc'', Run 2000, Run 2060, Run 3000] :: string event list"
  have a1: "(400 :: nat) = (case None :: nat option of None \<Rightarrow> 400 | Some n \<Rightarrow> n)" by simp
  have a2: "(0 :: nat) < 400" "(400 :: nat) < 2 ^ 31" by simp_all
  have a3: "in_order 1000 ?es" "burst 400 1000 ?es" by simp_all
  have a4: "last_call (1000, ''a'') ?es = (1650, ''abc'')" by simp
  have a5: "List.find (\<lambda>T. (1650 :: nat) + 400 \<le> T) (trailing_runs ?es) = Some 2060"
    by (simp add: trailing_runs_def)
  have a6: "fired (exec [Call 20 ''x'', Run 100] (debounce None 10)) = []"
    by (simp add: exec_def debounce_def debounced_def clearTimeout_def run_due_def Let_def)
  from debounce_coalesces [OF a1 a2 a3 a4, of "[Call 20 ''x'', Run 100]" 10] a5 a6
  have first: "fired (exec ([Call 20 ''x'', Run 100] @ Call 1000 ''a'' # ?es) (debounce None 10)) =
                 [(2060, ''abc'')]"
    "pending (exec ([Call 20 ''x'', Run 100] @ Call 1000 ''a'' # ?es) (debounce None 10)) = []"
    by simp_all
  have b1: "(50 :: nat) = (case Some 50 of None \<Rightarrow> 400 | Some n \<Rightarrow> n)" by simp
  have b2: "(0 :: nat) < 50" "(50 :: nat) < 2 ^ 31" by simp_all
  have b3: "in_order 80 [Run 130 :: string event]" "burst 50 80 [Run 130 :: string event]"
    by simp_all
  have b4: "last_call (80, ''b'') [Run 130] = (80, ''b'')" by simp
  have b5: "List.find (\<lambda>T. (80 :: nat) + 50 \<le> T) (trailing_runs [Run 130 :: string event]) = Some 130"
    by (simp add: trailing_runs_def)
  have b6: "fired (exec [Call 0 ''a''] (debounce (Some 50) 0)) = []"
    by (simp add: exec_def debounce_def debounced_def clearTimeout_def Let_def)
  from debounce_coalesces [OF b1 b2 b3 b4, of "[Call 0 ''a'']" 0] b5 b6
  have second: "fired (exec ([Call 0 ''a''] @ Call 80 ''b'' # [Run 130]) (debounce (Some 50) 0)) =
                  [(130, ''b'')]"
    by simp
  from first second show ?thesis by simp
qed

end
